theory Spec2Isabelle
  imports Complex_Main "HOL-Library.AList"
begin

section \<open>Data model (src/models/Booking.ts, src/models/Room.ts)\<close>

text \<open>
  A \<open>Date\<close> is its \<open>getTime()\<close>: milliseconds since the epoch. An \<open>ObjectId\<close> is
  its \<open>toString()\<close>, the 24 hexadecimal characters. The \<open>number\<close> fields that the
  request schemas constrain to integers (guests, occupancy) are integers here; prices are
  rationals (the rounding of IEEE doubles is not modelled).
\<close>

type_synonym Date = int
type_synonym ObjectId = string

datatype BookingStatus = PENDING | CONFIRMED | CANCELLED | COMPLETED

datatype PaymentStatus = PAYMENT_PENDING | PAID | FAILED | REFUNDED

record IBooking =
  bookingId :: ObjectId
  userId :: ObjectId
  roomId :: ObjectId
  checkInDate :: Date
  checkOutDate :: Date
  numberOfGuests :: int
  totalAmount :: rat
  status :: BookingStatus
  paymentStatus :: PaymentStatus
  specialRequests :: "string option"
  createdAt :: Date
  updatedAt :: Date

record ICreateBooking =
  cb_roomId :: ObjectId
  cb_checkInDate :: Date
  cb_checkOutDate :: Date
  cb_numberOfGuests :: int
  cb_specialRequests :: "string option"

datatype RoomCategory = BASIC | PREMIUM | SUITE

text \<open>The fields of \<open>IRoom\<close> that the booking and availability code reads.\<close>

record IRoom =
  roomOid :: ObjectId
  roomNumber :: string
  category :: RoomCategory
  isActive :: bool
  maxOccupancy :: int
  basePrice :: rat

section \<open>Errors, console lines and the world the services run in\<close>

text \<open>The messages \<open>validateBooking\<close> pushes, one constructor per message.\<close>

datatype violation =
    CheckInNotBeforeCheckOut
  | CheckInInThePast
  | GuestsNotPositive
  | RoomMissing
  | RoomInactive
  | GuestsExceedCapacity int
  | DatesTaken

text \<open>
  Every \<open>throw\<close> of the modelled code is a value of \<open>error\<close>. \<open>StoreFailure\<close> is
  whatever the redis client rejects a command with; \<open>ValidationFailed\<close> carries the
  messages that \<open>createBooking\<close> joins with a comma; \<open>RequestRejected\<close> is the answer
  400 "Validation failed" of the \<open>validateBody\<close> middleware.
\<close>

datatype error =
    RedisNotActiveForLocking
  | RedisNotConnected
  | StoreFailure
  | FailedToAcquireLock string
  | ValidationFailed "violation list"
  | RoomNotFound
  | BookingNotFound
  | BookingNotFoundOrCannotBeConfirmed
  | RequestRejected
  | OtherError string

datatype console_line =
    LogLockAcquired string string
  | LogLockBusy int int int
  | ErrLockAcquisition int error
  | LogLockGaveUp int string
  | WarnCannotRelease
  | LogLockReleased string
  | WarnLockNotReleased string
  | ErrLockRelease error
  | ErrSetAvailability error
  | ErrGetAvailability error
  | ErrInvalidate error
  | LogInvalidated nat string
  | LogCreatingBooking string Date Date
  | WarnInvalidationFailed error
  | LogBookingCreated ObjectId
  | LogCacheHit string
  | LogCachedAvailability string bool
  | WarnCacheRead string error
  | WarnCacheWrite string error

text \<open>
  The lock's observable effects, in the order they happen: every \<open>SET key value NX EX\<close>
  with the store's answer, and every timer sleep.
\<close>

datatype set_reply = OK | Nil | Rejected

datatype effect = SetNX string string int set_reply | Sleep int

text \<open>
  What a key of the store holds: a plain string (a lock's owner value), or the JSON text
  \<open>{"isAvailable": b, "timestamp": t}\<close> that \<open>setRoomAvailability\<close> writes.
\<close>

datatype stored = Text string | AvailabilityJson bool Date

text \<open>
  The world: the redis connection flags of \<open>RedisConnection\<close>, the key-value store
  (each key with its value and the time its expiry falls due), an oracle that says for
  each store command to come whether the client rejects it, the two collections of the
  store of record, the clock read by \<open>new Date()\<close>, the console, and the supply of
  identifiers for \<open>insertOne\<close>.
\<close>

record world =
  isConnected :: bool
  isReady :: bool
  kv :: "(string \<times> stored \<times> Date) list"
  faults :: "bool list"
  effects :: "effect list"
  clock :: Date
  console :: "console_line list"
  bookings :: "IBooking list"
  rooms :: "IRoom list"
  genId :: "nat \<Rightarrow> ObjectId"
  idCount :: nat

definition say :: "console_line \<Rightarrow> world \<Rightarrow> world" where
  "say l w = w\<lparr>console := console w @ [l]\<rparr>"

definition did :: "effect \<Rightarrow> world \<Rightarrow> world" where
  "did e w = w\<lparr>effects := effects w @ [e]\<rparr>"

section \<open>The shared store client (src/config/redis.ts)\<close>

definition isConnectionActive :: "world \<Rightarrow> bool" where
  "isConnectionActive w = (isConnected w \<and> isReady w)"

text \<open>\<open>getClient\<close>: the client object always exists after the constructor.\<close>

definition getClient :: "world \<Rightarrow> error + unit" where
  "getClient w = (if \<not> isConnected w then Inl RedisNotConnected else Inr ())"

definition command_fails :: "world \<Rightarrow> bool" where
  "command_fails w = (case faults w of [] \<Rightarrow> False | f # _ \<Rightarrow> f)"

definition consume_fault :: "world \<Rightarrow> world" where
  "consume_fault w = w\<lparr>faults := tl (faults w)\<rparr>"

text \<open>The value a key holds now: none once its expiry time has come.\<close>

definition live_at :: "(string \<times> stored \<times> Date) list \<Rightarrow> Date \<Rightarrow> string \<Rightarrow> stored option" where
  "live_at store now k =
     (case map_of store k of
        None \<Rightarrow> None
      | Some (v, expiry) \<Rightarrow> if now < expiry then Some v else None)"

definition live :: "world \<Rightarrow> string \<Rightarrow> stored option" where
  "live w k = live_at (kv w) (clock w) k"

text \<open>
  \<open>client.set(key, value, {NX: true, EX: ttl})\<close>: \<open>"OK"\<close> when the key was absent,
  \<open>null\<close> when it is held; the store refuses an expiry that is not positive.
\<close>

definition client_set_NX_EX ::
  "string \<Rightarrow> string \<Rightarrow> int \<Rightarrow> world \<Rightarrow> (error + string option) \<times> world" where
  "client_set_NX_EX key val ex w =
     (let w1 = consume_fault w in
      if command_fails w \<or> ex \<le> 0
      then (Inl StoreFailure, did (SetNX key val ex Rejected) w1)
      else (case live w1 key of
              Some held \<Rightarrow> (Inr None, did (SetNX key val ex Nil) w1)
            | None \<Rightarrow>
                (Inr (Some ''OK''),
                 did (SetNX key val ex OK)
                   (w1\<lparr>kv := AList.update key (Text val, clock w1 + ex * 1000) (kv w1)\<rparr>))))"

text \<open>
  The Lua script of \<open>release\<close>, run atomically by the store:
  \<^verbatim>\<open>if redis.call("GET", KEYS[1]) == ARGV[1] then return redis.call("DEL", KEYS[1]) else return 0 end\<close>
\<close>

definition release_script :: "string \<Rightarrow> string \<Rightarrow> world \<Rightarrow> int \<times> world" where
  "release_script key arg w =
     (if live w key = Some (Text arg) then (1, w\<lparr>kv := AList.delete key (kv w)\<rparr>) else (0, w))"

definition client_eval_release ::
  "string \<Rightarrow> string \<Rightarrow> world \<Rightarrow> (error + int) \<times> world" where
  "client_eval_release key arg w =
     (let w1 = consume_fault w in
      if command_fails w then (Inl StoreFailure, w1)
      else (case release_script key arg w1 of (n, w2) \<Rightarrow> (Inr n, w2)))"

section \<open>The distributed lock (utils/redisLock)\<close>

record LockOptions =
  opt_ttl :: "int option"
  opt_retryDelay :: "int option"
  opt_maxRetries :: "int option"

record RedisLock =
  lockKey :: string
  lockValue :: string
  ttl :: int
  retryDelay :: int
  maxRetries :: int

text \<open>\<open>options.x || d\<close>: the default stands in for a missing option and for \<open>0\<close>.\<close>

definition or_default :: "int option \<Rightarrow> int \<Rightarrow> int" where
  "or_default x d = (case x of None \<Rightarrow> d | Some v \<Rightarrow> if v = 0 then d else v)"

text \<open>
  The constructor. \<open>ownerValue\<close> is the string it builds from \<open>Date.now()\<close> and
  \<open>Math.random()\<close>.
\<close>

definition new_RedisLock :: "string \<Rightarrow> LockOptions \<Rightarrow> string \<Rightarrow> RedisLock" where
  "new_RedisLock key options ownerValue =
     \<lparr> lockKey = ''lock:'' @ key,
       lockValue = ownerValue,
       ttl = or_default (opt_ttl options) 30,
       retryDelay = or_default (opt_retryDelay options) 100,
       maxRetries = or_default (opt_maxRetries options) 3 \<rparr>"

text \<open>
  \<open>sleep\<close>: a timer of \<open>ms\<close> milliseconds; the runtime takes a delay below 1 or above
  \<open>2^31 - 1\<close> as 1.
\<close>

definition sleep :: "int \<Rightarrow> world \<Rightarrow> world" where
  "sleep ms w =
     did (Sleep ms) (w\<lparr>clock := clock w + (if ms < 1 \<or> 2147483647 < ms then 1 else ms)\<rparr>)"

text \<open>The \<open>for\<close> loop of \<open>acquire\<close>, from \<open>attempt\<close> on.\<close>

function acquire_loop :: "RedisLock \<Rightarrow> int \<Rightarrow> world \<Rightarrow> (error + bool) \<times> world" where
  "acquire_loop lk attempt w =
     (if attempt \<le> maxRetries lk then
        (case client_set_NX_EX (lockKey lk) (lockValue lk) (ttl lk) w of
           (Inr result, w1) \<Rightarrow>
             if result = Some ''OK''
             then (Inr True, say (LogLockAcquired (lockKey lk) (lockValue lk)) w1)
             else if attempt < maxRetries lk
             then acquire_loop lk (attempt + 1)
                    (sleep (retryDelay lk)
                       (say (LogLockBusy (retryDelay lk) (attempt + 1) (maxRetries lk)) w1))
             else acquire_loop lk (attempt + 1) w1
         | (Inl e, w1) \<Rightarrow>
             (let w2 = say (ErrLockAcquisition (attempt + 1) e) w1 in
              if attempt = maxRetries lk then (Inl e, w2)
              else acquire_loop lk (attempt + 1) (sleep (retryDelay lk) w2)))
      else (Inr False, say (LogLockGaveUp (maxRetries lk) (lockKey lk)) w))"
  by pat_completeness auto
termination
  by (relation "measure (\<lambda>(lk, attempt, w). nat (maxRetries lk + 1 - attempt))") auto

declare acquire_loop.simps [simp del]

definition acquire :: "RedisLock \<Rightarrow> world \<Rightarrow> (error + bool) \<times> world" where
  "acquire lk w =
     (if \<not> isConnectionActive w then (Inl RedisNotActiveForLocking, w)
      else (case getClient w of
              Inl e \<Rightarrow> (Inl e, w)
            | Inr client \<Rightarrow> acquire_loop lk 0 w))"

text \<open>The body of the \<open>try\<close> block of \<open>release\<close>.\<close>

definition release_try :: "RedisLock \<Rightarrow> world \<Rightarrow> (error + bool) \<times> world" where
  "release_try lk w =
     (case getClient w of
        Inl e \<Rightarrow> (Inl e, w)
      | Inr client \<Rightarrow>
          (case client_eval_release (lockKey lk) (lockValue lk) w of
             (Inl e, w1) \<Rightarrow> (Inl e, w1)
           | (Inr result, w1) \<Rightarrow>
               if result = 1 then (Inr True, say (LogLockReleased (lockKey lk)) w1)
               else (Inr False, say (WarnLockNotReleased (lockKey lk)) w1)))"

definition release :: "RedisLock \<Rightarrow> world \<Rightarrow> (error + bool) \<times> world" where
  "release lk w =
     (if \<not> isConnectionActive w then (Inr False, say WarnCannotRelease w)
      else (case release_try lk w of
              (Inl e, w1) \<Rightarrow> (Inr False, say (ErrLockRelease e) w1)
            | (Inr b, w1) \<Rightarrow> (Inr b, w1)))"

text \<open>
  \<open>withLock\<close>: \<open>try { return await fn() } finally { await this.release() }\<close>. An error
  raised in the \<open>finally\<close> block would replace the outcome of \<open>fn\<close>.
\<close>

definition withLock ::
  "RedisLock \<Rightarrow> (world \<Rightarrow> (error + 'a) \<times> world) \<Rightarrow> world \<Rightarrow> (error + 'a) \<times> world" where
  "withLock lk fn w =
     (case acquire lk w of
        (Inl e, w1) \<Rightarrow> (Inl e, w1)
      | (Inr acquired, w1) \<Rightarrow>
          if \<not> acquired then (Inl (FailedToAcquireLock (lockKey lk)), w1)
          else (case fn w1 of
                  (outcome, w2) \<Rightarrow>
                    (case release lk w2 of
                       (Inl e, w3) \<Rightarrow> (Inl e, w3)
                     | (Inr released, w3) \<Rightarrow> (outcome, w3))))"

text \<open>\<open>createBookingLock\<close>: the caller's options override the three defaults.\<close>

definition createBookingLock ::
  "(Date \<Rightarrow> string) \<Rightarrow> ObjectId \<Rightarrow> Date \<Rightarrow> Date \<Rightarrow> string \<Rightarrow> RedisLock" where
  "createBookingLock toISOString room checkIn checkOut ownerValue =
     new_RedisLock (''booking:'' @ room @ '':'' @ toISOString checkIn @ ''_'' @ toISOString checkOut)
       \<lparr> opt_ttl = Some 60, opt_retryDelay = Some 200, opt_maxRetries = Some 5 \<rparr>
       ownerValue"

text \<open>
  Reading the effects of \<open>acquire\<close>: the answer the store gave to one \<open>SET\<close>, what
  \<open>acquire\<close> returns when that answer is the last one, and a list with a separator
  between neighbours.
\<close>

fun reply_of :: "error + string option \<Rightarrow> set_reply" where
  "reply_of (Inl e) = Rejected"
| "reply_of (Inr None) = Nil"
| "reply_of (Inr (Some s)) = OK"

definition acquire_outcome :: "set_reply \<Rightarrow> error + bool" where
  "acquire_outcome r =
     (case r of OK \<Rightarrow> Inr True | Nil \<Rightarrow> Inr False | Rejected \<Rightarrow> Inl StoreFailure)"

fun intersperse :: "'a \<Rightarrow> 'a list \<Rightarrow> 'a list" where
  "intersperse s [] = []"
| "intersperse s [x] = [x]"
| "intersperse s (x # y # ys) = x # s # intersperse s (y # ys)"

section \<open>The availability cache (src/config/redis.ts)\<close>

text \<open>
  The patterns of \<open>SCAN ... MATCH\<close>, as the code uses them: \<open>*\<close> stands for any run
  of characters, \<open>?\<close> for any one character, every other character for itself. (The
  store also reads \<open>[...]\<close> and a backslash; no pattern of the code has them unless a
  room identifier does.)
\<close>

fun glob :: "string \<Rightarrow> string \<Rightarrow> bool" where
  "glob [] [] = True"
| "glob [] (c # s) = False"
| "glob (p # ps) [] = (p = CHR ''*'' \<and> glob ps [])"
| "glob (p # ps) (c # s) =
     (if p = CHR ''*'' then glob ps (c # s) \<or> glob (p # ps) s
      else if p = CHR ''?'' then glob ps s
      else p = c \<and> glob ps s)"

definition client_setEx :: "string \<Rightarrow> int \<Rightarrow> stored \<Rightarrow> world \<Rightarrow> (error + unit) \<times> world" where
  "client_setEx key seconds val w =
     (let w1 = consume_fault w in
      if command_fails w \<or> seconds \<le> 0 then (Inl StoreFailure, w1)
      else (Inr (), w1\<lparr>kv := AList.update key (val, clock w1 + seconds * 1000) (kv w1)\<rparr>))"

definition client_get :: "string \<Rightarrow> world \<Rightarrow> (error + stored option) \<times> world" where
  "client_get key w =
     (let w1 = consume_fault w in
      if command_fails w then (Inl StoreFailure, w1) else (Inr (live w1 key), w1))"

text \<open>\<open>client.scanIterator({MATCH: pattern})\<close>, read to its end: the keys now held that match.\<close>

definition client_scan :: "string \<Rightarrow> world \<Rightarrow> (error + string list) \<times> world" where
  "client_scan pattern w =
     (let w1 = consume_fault w in
      if command_fails w then (Inl StoreFailure, w1)
      else (Inr (filter (\<lambda>k. live w1 k \<noteq> None \<and> glob pattern k) (remdups (map fst (kv w1)))),
            w1))"

definition client_del :: "string list \<Rightarrow> world \<Rightarrow> (error + nat) \<times> world" where
  "client_del keys w =
     (let w1 = consume_fault w in
      if command_fails w then (Inl StoreFailure, w1)
      else (Inr (length (filter (\<lambda>k. live w1 k \<noteq> None) (remdups keys))),
            w1\<lparr>kv := filter (\<lambda>(k, v). k \<notin> set keys) (kv w1)\<rparr>))"

definition availability_key :: "string \<Rightarrow> string \<Rightarrow> string" where
  "availability_key room dateRange = ''room:availability:'' @ room @ '':'' @ dateRange"

text \<open>
  \<open>setRoomAvailability\<close> and \<open>getRoomAvailability\<close> catch every error, log it, and go
  on. A value that is not the JSON text of an availability verdict cannot be read as one.
\<close>

definition setRoomAvailability ::
  "string \<Rightarrow> string \<Rightarrow> bool \<Rightarrow> int \<Rightarrow> world \<Rightarrow> (error + unit) \<times> world" where
  "setRoomAvailability room dateRange isAvailable seconds w =
     (case (case getClient w of
              Inl e \<Rightarrow> (Inl e, w)
            | Inr client \<Rightarrow>
                client_setEx (availability_key room dateRange) seconds
                  (AvailabilityJson isAvailable (clock w)) w) of
        (Inl e, w1) \<Rightarrow> (Inr (), say (ErrSetAvailability e) w1)
      | (Inr u, w1) \<Rightarrow> (Inr (), w1))"

definition getRoomAvailability ::
  "string \<Rightarrow> string \<Rightarrow> world \<Rightarrow> (error + bool option) \<times> world" where
  "getRoomAvailability room dateRange w =
     (case (case getClient w of
              Inl e \<Rightarrow> (Inl e, w)
            | Inr client \<Rightarrow>
                (case client_get (availability_key room dateRange) w of
                   (Inl e, w1) \<Rightarrow> (Inl e, w1)
                 | (Inr None, w1) \<Rightarrow> (Inr None, w1)
                 | (Inr (Some (AvailabilityJson isAvailable t)), w1) \<Rightarrow> (Inr (Some isAvailable), w1)
                 | (Inr (Some (Text s)), w1) \<Rightarrow> (Inl (OtherError ''SyntaxError''), w1))) of
        (Inl e, w1) \<Rightarrow> (Inr None, say (ErrGetAvailability e) w1)
      | (Inr cached, w1) \<Rightarrow> (Inr cached, w1))"

text \<open>\<open>RedisConnection.invalidateRoomCache\<close>: the body of its \<open>try\<close>, then the whole.\<close>

definition redis_invalidate_try :: "string \<Rightarrow> world \<Rightarrow> (error + unit) \<times> world" where
  "redis_invalidate_try room w =
     (case getClient w of
        Inl e \<Rightarrow> (Inl e, w)
      | Inr client \<Rightarrow>
          (case client_scan (''room:availability:'' @ room @ '':*'') w of
             (Inl e, w1) \<Rightarrow> (Inl e, w1)
           | (Inr keys, w1) \<Rightarrow>
               if length keys > 0
               then (case client_del keys w1 of
                       (Inl e, w2) \<Rightarrow> (Inl e, w2)
                     | (Inr n, w2) \<Rightarrow> (Inr (), say (LogInvalidated (length keys) room) w2))
               else (Inr (), w1)))"

definition redis_invalidateRoomCache :: "string \<Rightarrow> world \<Rightarrow> (error + unit) \<times> world" where
  "redis_invalidateRoomCache room w =
     (case redis_invalidate_try room w of
        (Inl e, w1) \<Rightarrow> (Inr (), say (ErrInvalidate e) w1)
      | (Inr u, w1) \<Rightarrow> (Inr (), w1))"

section \<open>The store of record: filters over the bookings collection\<close>

text \<open>
  The filter documents the services pass to \<open>find\<close> and \<open>findOneAndUpdate\<close>, as data,
  and what it is for a booking to match one. \<open>AllMatch\<close> is a document with several
  keys; \<open>$lt\<close> and \<open>$gt\<close> compare dates with dates only.
\<close>

datatype bvalue = VId ObjectId | VStatus BookingStatus | VDate Date

datatype bfield = F_id | F_roomId | F_status | F_checkInDate | F_checkOutDate

datatype condition =
    Equals bvalue
  | NotEqual bvalue
  | AnyOf "bvalue list"
  | LessThan bvalue
  | GreaterThan bvalue

datatype bfilter = Where bfield condition | AnyMatch "bfilter list" | AllMatch "bfilter list"

fun field_value :: "IBooking \<Rightarrow> bfield \<Rightarrow> bvalue" where
  "field_value b F_id = VId (bookingId b)"
| "field_value b F_roomId = VId (roomId b)"
| "field_value b F_status = VStatus (status b)"
| "field_value b F_checkInDate = VDate (checkInDate b)"
| "field_value b F_checkOutDate = VDate (checkOutDate b)"

fun less_value :: "bvalue \<Rightarrow> bvalue \<Rightarrow> bool" where
  "less_value (VDate a) (VDate b) = (a < b)"
| "less_value x y = False"

fun satisfies :: "condition \<Rightarrow> bvalue \<Rightarrow> bool" where
  "satisfies (Equals v) x = (x = v)"
| "satisfies (NotEqual v) x = (x \<noteq> v)"
| "satisfies (AnyOf vs) x = (x \<in> set vs)"
| "satisfies (LessThan v) x = less_value x v"
| "satisfies (GreaterThan v) x = less_value v x"

fun matches :: "bfilter \<Rightarrow> IBooking \<Rightarrow> bool" where
  "matches (Where f c) b = satisfies c (field_value b f)"
| "matches (AnyMatch qs) b = list_ex (\<lambda>q. matches q b) qs"
| "matches (AllMatch qs) b = list_all (\<lambda>q. matches q b) qs"

definition coll_find :: "bfilter \<Rightarrow> IBooking list \<Rightarrow> IBooking list" where
  "coll_find q docs = filter (matches q) docs"

fun update_first :: "('a \<Rightarrow> bool) \<Rightarrow> ('a \<Rightarrow> 'a) \<Rightarrow> 'a list \<Rightarrow> 'a list" where
  "update_first p f [] = []"
| "update_first p f (x # xs) = (if p x then f x # xs else x # update_first p f xs)"

text \<open>\<open>findOneAndUpdate(filter, {$set: ...}, {returnDocument: "after"})\<close>.\<close>

definition findOneAndUpdate ::
  "bfilter \<Rightarrow> (IBooking \<Rightarrow> IBooking) \<Rightarrow> world \<Rightarrow> IBooking option \<times> world" where
  "findOneAndUpdate q upd w =
     (case List.find (matches q) (bookings w) of
        None \<Rightarrow> (None, w)
      | Some b \<Rightarrow> (Some (upd b), w\<lparr>bookings := update_first (matches q) upd (bookings w)\<rparr>))"

text \<open>\<open>insertOne\<close>: the driver gives the document its identifier.\<close>

definition insertOne :: "IBooking \<Rightarrow> world \<Rightarrow> ObjectId \<times> world" where
  "insertOne doc w =
     (let oid = genId w (idCount w)
      in (oid, w\<lparr>bookings := bookings w @ [doc\<lparr>bookingId := oid\<rparr>],
                 idCount := Suc (idCount w)\<rparr>))"

definition findRoom :: "ObjectId \<Rightarrow> world \<Rightarrow> IRoom option" where
  "findRoom oid w = List.find (\<lambda>r. roomOid r = oid) (rooms w)"

section \<open>The booking service (services/bookingService)\<close>

record IBookingValidation =
  isValid :: bool
  errors :: "violation list"

text \<open>
  The filter of the conflict query, the same in \<open>validateBooking\<close> and in
  \<open>checkRoomAvailability\<close> (which may add \<open>_id: {$ne: excludeBookingId}\<close>).
\<close>

definition conflict_filter :: "ObjectId \<Rightarrow> Date \<Rightarrow> Date \<Rightarrow> ObjectId option \<Rightarrow> bfilter" where
  "conflict_filter room checkIn checkOut exclude =
     AllMatch ([ Where F_roomId (Equals (VId room)),
                 Where F_status (AnyOf [VStatus PENDING, VStatus CONFIRMED]),
                 AnyMatch [AllMatch [ Where F_checkInDate (LessThan (VDate checkOut)),
                                      Where F_checkOutDate (GreaterThan (VDate checkIn)) ]] ]
               @ (case exclude of
                    None \<Rightarrow> []
                  | Some oid \<Rightarrow> [Where F_id (NotEqual (VId oid))]))"

definition push_if :: "bool \<Rightarrow> 'a \<Rightarrow> 'a list \<Rightarrow> 'a list" where
  "push_if c m es = (if c then es @ [m] else es)"

definition validateBooking :: "ICreateBooking \<Rightarrow> world \<Rightarrow> IBookingValidation" where
  "validateBooking bookingData w =
     (let errors1 = push_if (cb_checkInDate bookingData \<ge> cb_checkOutDate bookingData)
                      CheckInNotBeforeCheckOut [];
          errors2 = push_if (cb_checkInDate bookingData < clock w) CheckInInThePast errors1;
          errors3 = push_if (cb_numberOfGuests bookingData \<le> 0) GuestsNotPositive errors2
      in case findRoom (cb_roomId bookingData) w of
           None \<Rightarrow> \<lparr> isValid = False, errors = errors3 @ [RoomMissing] \<rparr>
         | Some room \<Rightarrow>
             (let errors4 = push_if (\<not> isActive room) RoomInactive errors3;
                  errors5 = push_if (cb_numberOfGuests bookingData > maxOccupancy room)
                              (GuestsExceedCapacity (maxOccupancy room)) errors4;
                  conflictingBookings =
                    coll_find (conflict_filter (cb_roomId bookingData)
                                 (cb_checkInDate bookingData) (cb_checkOutDate bookingData) None)
                      (bookings w);
                  errors6 = push_if (length conflictingBookings > 0) DatesTaken errors5
              in \<lparr> isValid = (length errors6 = 0), errors = errors6 \<rparr>))"

definition totalNights :: "Date \<Rightarrow> Date \<Rightarrow> int" where
  "totalNights checkIn checkOut = \<lceil>rat_of_int (checkOut - checkIn) / (1000 * 60 * 60 * 24)\<rceil>"

text \<open>\<open>try { if (redis.isConnectionActive()) await invalidate(room) } catch { warn }\<close>.\<close>

definition invalidate_if_active ::
  "(string \<Rightarrow> world \<Rightarrow> (error + unit) \<times> world) \<Rightarrow> string \<Rightarrow> world \<Rightarrow> world" where
  "invalidate_if_active invalidate room w =
     (if isConnectionActive w
      then (case invalidate room w of
              (Inl e, w1) \<Rightarrow> say (WarnInvalidationFailed e) w1
            | (Inr u, w1) \<Rightarrow> w1)
      else w)"

text \<open>The function \<open>createBooking\<close> passes to \<open>withLock\<close>.\<close>

definition createBooking_section ::
  "ObjectId \<Rightarrow> ICreateBooking \<Rightarrow> world \<Rightarrow> (error + IBooking) \<times> world" where
  "createBooking_section user bookingData w0 =
     (let w = say (LogCreatingBooking (cb_roomId bookingData) (cb_checkInDate bookingData)
                     (cb_checkOutDate bookingData)) w0;
          validation = validateBooking bookingData w
      in if \<not> isValid validation then (Inl (ValidationFailed (errors validation)), w)
         else (case findRoom (cb_roomId bookingData) w of
                 None \<Rightarrow> (Inl RoomNotFound, w)
               | Some room \<Rightarrow>
                   (let nights = totalNights (cb_checkInDate bookingData)
                                   (cb_checkOutDate bookingData);
                        amount = basePrice room * rat_of_int nights;
                        booking =
                          \<lparr> bookingId = [],
                            userId = user,
                            roomId = cb_roomId bookingData,
                            checkInDate = cb_checkInDate bookingData,
                            checkOutDate = cb_checkOutDate bookingData,
                            numberOfGuests = cb_numberOfGuests bookingData,
                            totalAmount = amount,
                            status = PENDING,
                            paymentStatus = PAYMENT_PENDING,
                            specialRequests =
                              (case cb_specialRequests bookingData of
                                 None \<Rightarrow> None
                               | Some text \<Rightarrow> if text = [] then None else Some text),
                            createdAt = clock w,
                            updatedAt = clock w \<rparr>
                    in case insertOne booking w of
                         (insertedId, w1) \<Rightarrow>
                           (let w2 = invalidate_if_active redis_invalidateRoomCache
                                       (cb_roomId bookingData) w1
                            in (Inr (booking\<lparr>bookingId := insertedId\<rparr>),
                                say (LogBookingCreated insertedId) w2)))))"

text \<open>
  \<open>createBooking\<close>. \<open>toISOString\<close> is the runtime's rendering of a date, and
  \<open>ownerValue\<close> the value the lock's constructor draws for this call.
\<close>

definition createBooking ::
  "(Date \<Rightarrow> string) \<Rightarrow> string \<Rightarrow> ObjectId \<Rightarrow> ICreateBooking \<Rightarrow> world
     \<Rightarrow> (error + IBooking) \<times> world" where
  "createBooking toISOString ownerValue user bookingData w =
     withLock
       (createBookingLock toISOString (cb_roomId bookingData) (cb_checkInDate bookingData)
          (cb_checkOutDate bookingData) ownerValue)
       (createBooking_section user bookingData) w"

text \<open>\<open>BookingService.invalidateRoomCache\<close> (private): the body of its \<open>try\<close>, then the whole.\<close>

definition service_invalidate_try :: "string \<Rightarrow> world \<Rightarrow> (error + unit) \<times> world" where
  "service_invalidate_try room w =
     (if \<not> isConnectionActive w then (Inr (), w)
      else (case getClient w of
              Inl e \<Rightarrow> (Inl e, w)
            | Inr client \<Rightarrow>
                (case client_scan (''room:availability:*'' @ room @ ''*'') w of
                   (Inl e, w1) \<Rightarrow> (Inl e, w1)
                 | (Inr keys1, w1) \<Rightarrow>
                     (case client_scan ''room:availability:search:*'' w1 of
                        (Inl e, w2) \<Rightarrow> (Inl e, w2)
                      | (Inr keys2, w2) \<Rightarrow>
                          (let keys = keys1 @ keys2
                           in if length keys > 0
                              then (case client_del keys w2 of
                                      (Inl e, w3) \<Rightarrow> (Inl e, w3)
                                    | (Inr n, w3) \<Rightarrow>
                                        (Inr (), say (LogInvalidated (length keys) room) w3))
                              else (Inr (), w2))))))"

definition service_invalidateRoomCache :: "string \<Rightarrow> world \<Rightarrow> (error + unit) \<times> world" where
  "service_invalidateRoomCache room w =
     (case service_invalidate_try room w of
        (Inl e, w1) \<Rightarrow> (Inr (), say (ErrInvalidate e) w1)
      | (Inr u, w1) \<Rightarrow> (Inr (), w1))"

definition cancelBooking :: "ObjectId \<Rightarrow> world \<Rightarrow> (error + IBooking) \<times> world" where
  "cancelBooking oid w =
     (case findOneAndUpdate (AllMatch [Where F_id (Equals (VId oid))])
             (\<lambda>b. b\<lparr>status := CANCELLED, updatedAt := clock w\<rparr>) w of
        (None, w1) \<Rightarrow> (Inl BookingNotFound, w1)
      | (Some result, w1) \<Rightarrow>
          (Inr result, invalidate_if_active service_invalidateRoomCache (roomId result) w1))"

definition confirmBooking :: "ObjectId \<Rightarrow> world \<Rightarrow> (error + IBooking) \<times> world" where
  "confirmBooking oid w =
     (case findOneAndUpdate
             (AllMatch [Where F_id (Equals (VId oid)), Where F_status (Equals (VStatus PENDING))])
             (\<lambda>b. b\<lparr>status := CONFIRMED, updatedAt := clock w\<rparr>) w of
        (None, w1) \<Rightarrow> (Inl BookingNotFoundOrCannotBeConfirmed, w1)
      | (Some result, w1) \<Rightarrow>
          (Inr result, invalidate_if_active service_invalidateRoomCache (roomId result) w1))"

section \<open>The availability query (services/roomService)\<close>

record IRoomAvailabilityFilter =
  af_checkInDate :: Date
  af_checkOutDate :: Date
  af_excludeBookingId :: "ObjectId option"
  af_category :: "RoomCategory option"
  af_maxOccupancy :: "int option"

record IRoomAvailability =
  ra_room :: ObjectId
  ra_roomNumber :: string
  ra_category :: RoomCategory
  ra_maxOccupancy :: int
  ra_basePrice :: rat
  ra_isAvailable :: bool
  ra_conflictingBookings :: "ObjectId list"

definition room_filter :: "IRoomAvailabilityFilter \<Rightarrow> IRoom \<Rightarrow> bool" where
  "room_filter f r =
     (isActive r
      \<and> (case af_category f of None \<Rightarrow> True | Some c \<Rightarrow> category r = c)
      \<and> (case af_maxOccupancy f of
            None \<Rightarrow> True
          | Some n \<Rightarrow> if n = 0 then True else maxOccupancy r \<ge> n))"

text \<open>The cache lookup of one room, with its \<open>try\<close> and \<open>catch\<close>.\<close>

definition cache_read :: "IRoom \<Rightarrow> string \<Rightarrow> world \<Rightarrow> bool option \<times> world" where
  "cache_read room dateRange w =
     (if isConnectionActive w
      then (case getRoomAvailability (roomOid room) dateRange w of
              (Inl e, w1) \<Rightarrow> (None, say (WarnCacheRead (roomOid room) e) w1)
            | (Inr cached, w1) \<Rightarrow>
                (cached, if cached \<noteq> None then say (LogCacheHit (roomNumber room)) w1 else w1))
      else (None, w))"

definition cache_write :: "IRoom \<Rightarrow> string \<Rightarrow> bool \<Rightarrow> world \<Rightarrow> world" where
  "cache_write room dateRange isAvailable w =
     (if isConnectionActive w
      then (case setRoomAvailability (roomOid room) dateRange isAvailable 300 w of
              (Inl e, w1) \<Rightarrow> say (WarnCacheWrite (roomOid room) e) w1
            | (Inr u, w1) \<Rightarrow> say (LogCachedAvailability (roomNumber room) isAvailable) w1)
      else w)"

text \<open>The body of the \<open>rooms.map\<close> callback of \<open>checkRoomAvailability\<close>.\<close>

definition room_availability ::
  "(Date \<Rightarrow> string) \<Rightarrow> IRoomAvailabilityFilter \<Rightarrow> IRoom \<Rightarrow> world \<Rightarrow> IRoomAvailability \<times> world" where
  "room_availability toISOString f room w =
     (let dateRange = toISOString (af_checkInDate f) @ ''_'' @ toISOString (af_checkOutDate f);
          answer = (\<lambda>isAvailable conflicting.
                      \<lparr> ra_room = roomOid room, ra_roomNumber = roomNumber room,
                        ra_category = category room, ra_maxOccupancy = maxOccupancy room,
                        ra_basePrice = basePrice room, ra_isAvailable = isAvailable,
                        ra_conflictingBookings = conflicting \<rparr>)
      in case cache_read room dateRange w of
           (cached, w1) \<Rightarrow>
             (let found = coll_find (conflict_filter (roomOid room) (af_checkInDate f)
                                       (af_checkOutDate f) (af_excludeBookingId f))
                            (bookings w1)
              in case cached of
                   None \<Rightarrow>
                     (answer (length found = 0) (map bookingId found),
                      cache_write room dateRange (length found = 0) w1)
                 | Some isAvailable \<Rightarrow>
                     if \<not> isAvailable then (answer isAvailable (map bookingId found), w1)
                     else (answer isAvailable [], w1)))"

fun each_room :: "('a \<Rightarrow> world \<Rightarrow> 'b \<times> world) \<Rightarrow> 'a list \<Rightarrow> world \<Rightarrow> 'b list \<times> world" where
  "each_room f [] w = ([], w)"
| "each_room f (x # xs) w =
     (case f x w of (y, w1) \<Rightarrow> (case each_room f xs w1 of (ys, w2) \<Rightarrow> (y # ys, w2)))"

definition checkRoomAvailability ::
  "(Date \<Rightarrow> string) \<Rightarrow> IRoomAvailabilityFilter \<Rightarrow> world \<Rightarrow> IRoomAvailability list \<times> world" where
  "checkRoomAvailability toISOString f w =
     each_room (room_availability toISOString f) (filter (room_filter f) (rooms w)) w"

section \<open>The request schema of a new booking (src/validators/booking.ts)\<close>

text \<open>
  A field of the request body is absent or a JSON value. \<open>createBookingSchema\<close> accepts
  a body when every check of every field holds and both refinements hold; the
  middleware \<open>validateBody\<close> passes the parsed data on, or answers 400.
  \<open>parseDate\<close> stands for the schema's ISO 8601 date-time check followed by
  \<open>new Date(str)\<close>.
\<close>

datatype json = JNull | JBool bool | JNumber rat | JString string | JOther

record booking_body =
  body_roomId :: "json option"
  body_checkInDate :: "json option"
  body_checkOutDate :: "json option"
  body_numberOfGuests :: "json option"
  body_specialRequests :: "json option"

definition is_hex :: "char \<Rightarrow> bool" where
  "is_hex c = (c \<in> set ''0123456789abcdefABCDEF'')"

definition objectIdSchema :: "json option \<Rightarrow> string option" where
  "objectIdSchema x =
     (case x of
        Some (JString s) \<Rightarrow> if length s = 24 \<and> list_all is_hex s then Some s else None
      | _ \<Rightarrow> None)"

definition dateStringSchema :: "(string \<Rightarrow> Date option) \<Rightarrow> json option \<Rightarrow> Date option" where
  "dateStringSchema parseDate x = (case x of Some (JString s) \<Rightarrow> parseDate s | _ \<Rightarrow> None)"

definition futureDateSchema ::
  "(string \<Rightarrow> Date option) \<Rightarrow> Date \<Rightarrow> json option \<Rightarrow> Date option" where
  "futureDateSchema parseDate now x =
     (case dateStringSchema parseDate x of
        Some d \<Rightarrow> if d > now then Some d else None
      | None \<Rightarrow> None)"

definition numberOfGuestsSchema :: "json option \<Rightarrow> int option" where
  "numberOfGuestsSchema x =
     (case x of
        Some (JNumber n) \<Rightarrow>
          if rat_of_int \<lfloor>n\<rfloor> = n \<and> 1 \<le> n \<and> n \<le> 10 then Some \<lfloor>n\<rfloor> else None
      | _ \<Rightarrow> None)"

definition specialRequestsSchema :: "json option \<Rightarrow> string option option" where
  "specialRequestsSchema x =
     (case x of
        None \<Rightarrow> Some None
      | Some (JString s) \<Rightarrow> if length s \<le> 1000 then Some (Some s) else None
      | _ \<Rightarrow> None)"

definition diffDays :: "Date \<Rightarrow> Date \<Rightarrow> int" where
  "diffDays checkIn checkOut = \<lceil>rat_of_int \<bar>checkOut - checkIn\<bar> / (1000 * 60 * 60 * 24)\<rceil>"

definition createBookingSchema ::
  "(string \<Rightarrow> Date option) \<Rightarrow> Date \<Rightarrow> booking_body \<Rightarrow> ICreateBooking option" where
  "createBookingSchema parseDate now body =
     (case (objectIdSchema (body_roomId body),
            futureDateSchema parseDate now (body_checkInDate body),
            dateStringSchema parseDate (body_checkOutDate body),
            numberOfGuestsSchema (body_numberOfGuests body),
            specialRequestsSchema (body_specialRequests body)) of
        (Some room, Some checkIn, Some checkOut, Some guests, Some special) \<Rightarrow>
          if checkOut > checkIn \<and> diffDays checkIn checkOut \<le> 30
          then Some \<lparr> cb_roomId = room, cb_checkInDate = checkIn, cb_checkOutDate = checkOut,
                      cb_numberOfGuests = guests, cb_specialRequests = special \<rparr>
          else None
      | _ \<Rightarrow> None)"

text \<open>
  \<open>POST /bookings\<close> for an authenticated user: \<open>validateBody(createBookingSchema)\<close>,
  then the controller, which calls the service.
\<close>

definition postBooking ::
  "(string \<Rightarrow> Date option) \<Rightarrow> (Date \<Rightarrow> string) \<Rightarrow> string \<Rightarrow> ObjectId \<Rightarrow> booking_body \<Rightarrow> world
     \<Rightarrow> (error + IBooking) \<times> world" where
  "postBooking parseDate toISOString ownerValue user body w =
     (case createBookingSchema parseDate (clock w) body of
        None \<Rightarrow> (Inl RequestRejected, w)
      | Some bookingData \<Rightarrow> createBooking toISOString ownerValue user bookingData w)"

section \<open>Two calls of createBooking at once\<close>

text \<open>
  Two calls of \<open>createBooking\<close> in flight at once. A call is suspended at each
  \<open>await\<close>, and the other call may run in between. What one call does is cut here into
  turns, each of them run without interruption: one pass through the loop of \<open>acquire\<close>
  (the \<open>SET NX EX\<close> and, when the key is taken, the sleep before the next pass), the
  validation, the insert with the invalidation of the cache, and the release. The clock moves
  in the sleeps only.

  A call: the user, the request, and the lock \<open>createBooking\<close> made for it.
\<close>

record call =
  c_user :: ObjectId
  c_data :: ICreateBooking
  c_lock :: RedisLock

text \<open>
  Where a call stands: not yet started, about to make pass \<open>attempt\<close> of the loop of
  \<open>acquire\<close>, in the function passed to \<open>withLock\<close> before the validation or before
  the insert, in the \<open>finally\<close> block with the outcome of that function, or returned.
\<close>

datatype stage =
    Start
  | Attempt int
  | Validating
  | Persisting
  | Releasing "error + IBooking"
  | Finished "error + IBooking"

text \<open>
  One pass through the loop of \<open>acquire\<close>. When the loop is over without the lock,
  \<open>acquire\<close> returns false and \<open>withLock\<close> raises.
\<close>

definition attempt_step :: "RedisLock \<Rightarrow> int \<Rightarrow> world \<Rightarrow> stage \<times> world" where
  "attempt_step lk attempt w =
     (if attempt \<le> maxRetries lk then
        (case client_set_NX_EX (lockKey lk) (lockValue lk) (ttl lk) w of
           (Inr result, w1) \<Rightarrow>
             if result = Some ''OK''
             then (Validating, say (LogLockAcquired (lockKey lk) (lockValue lk)) w1)
             else if attempt < maxRetries lk
             then (Attempt (attempt + 1),
                   sleep (retryDelay lk)
                     (say (LogLockBusy (retryDelay lk) (attempt + 1) (maxRetries lk)) w1))
             else (Attempt (attempt + 1), w1)
         | (Inl e, w1) \<Rightarrow>
             (let w2 = say (ErrLockAcquisition (attempt + 1) e) w1 in
              if attempt = maxRetries lk then (Finished (Inl e), w2)
              else (Attempt (attempt + 1), sleep (retryDelay lk) w2)))
      else (Finished (Inl (FailedToAcquireLock (lockKey lk))),
            say (LogLockGaveUp (maxRetries lk) (lockKey lk)) w))"

text \<open>
  The function \<open>createBooking\<close> passes to \<open>withLock\<close>, in two halves: up to the verdict
  of \<open>validateBooking\<close>, and from the lookup of the room on.
\<close>

definition section_validate :: "ICreateBooking \<Rightarrow> world \<Rightarrow> (error + unit) \<times> world" where
  "section_validate bookingData w0 =
     (let w = say (LogCreatingBooking (cb_roomId bookingData) (cb_checkInDate bookingData)
                     (cb_checkOutDate bookingData)) w0;
          validation = validateBooking bookingData w
      in if \<not> isValid validation then (Inl (ValidationFailed (errors validation)), w)
         else (Inr (), w))"

definition section_persist ::
  "ObjectId \<Rightarrow> ICreateBooking \<Rightarrow> world \<Rightarrow> (error + IBooking) \<times> world" where
  "section_persist user bookingData w =
     (case findRoom (cb_roomId bookingData) w of
        None \<Rightarrow> (Inl RoomNotFound, w)
      | Some room \<Rightarrow>
          (let nights = totalNights (cb_checkInDate bookingData) (cb_checkOutDate bookingData);
               amount = basePrice room * rat_of_int nights;
               booking =
                 \<lparr> bookingId = [],
                   userId = user,
                   roomId = cb_roomId bookingData,
                   checkInDate = cb_checkInDate bookingData,
                   checkOutDate = cb_checkOutDate bookingData,
                   numberOfGuests = cb_numberOfGuests bookingData,
                   totalAmount = amount,
                   status = PENDING,
                   paymentStatus = PAYMENT_PENDING,
                   specialRequests =
                     (case cb_specialRequests bookingData of
                        None \<Rightarrow> None
                      | Some text \<Rightarrow> if text = [] then None else Some text),
                   createdAt = clock w,
                   updatedAt = clock w \<rparr>
           in case insertOne booking w of
                (insertedId, w1) \<Rightarrow>
                  (let w2 = invalidate_if_active redis_invalidateRoomCache
                              (cb_roomId bookingData) w1
                   in (Inr (booking\<lparr>bookingId := insertedId\<rparr>),
                       say (LogBookingCreated insertedId) w2))))"

text \<open>One turn of a call. A call that has returned stays as it is.\<close>

definition step_call :: "call \<Rightarrow> stage \<Rightarrow> world \<Rightarrow> stage \<times> world" where
  "step_call c st w =
     (case st of
        Start \<Rightarrow>
          if \<not> isConnectionActive w then (Finished (Inl RedisNotActiveForLocking), w)
          else (case getClient w of
                  Inl e \<Rightarrow> (Finished (Inl e), w)
                | Inr client \<Rightarrow> attempt_step (c_lock c) 0 w)
      | Attempt k \<Rightarrow> attempt_step (c_lock c) k w
      | Validating \<Rightarrow>
          (case section_validate (c_data c) w of
             (Inl e, w1) \<Rightarrow> (Releasing (Inl e), w1)
           | (Inr u, w1) \<Rightarrow> (Persisting, w1))
      | Persisting \<Rightarrow>
          (case section_persist (c_user c) (c_data c) w of (out, w1) \<Rightarrow> (Releasing out, w1))
      | Releasing out \<Rightarrow>
          (case release (c_lock c) w of
             (Inl e, w1) \<Rightarrow> (Finished (Inl e), w1)
           | (Inr released, w1) \<Rightarrow> (Finished out, w1))
      | Finished out \<Rightarrow> (Finished out, w))"

text \<open>
  The two calls and the world they share. A schedule says whose turn it is, turn after
  turn: \<open>True\<close> for the first call.
\<close>

record config =
  stageA :: stage
  stageB :: stage
  shared :: world

definition step :: "call \<Rightarrow> call \<Rightarrow> bool \<Rightarrow> config \<Rightarrow> config" where
  "step ca cb turnA cfg =
     (if turnA
      then (case step_call ca (stageA cfg) (shared cfg) of
              (st, w) \<Rightarrow> cfg\<lparr>stageA := st, shared := w\<rparr>)
      else (case step_call cb (stageB cfg) (shared cfg) of
              (st, w) \<Rightarrow> cfg\<lparr>stageB := st, shared := w\<rparr>))"

fun run :: "call \<Rightarrow> call \<Rightarrow> bool list \<Rightarrow> config \<Rightarrow> config" where
  "run ca cb [] cfg = cfg"
| "run ca cb (turnA # schedule) cfg = run ca cb schedule (step ca cb turnA cfg)"

text \<open>A call as \<open>createBooking\<close> sets it up, and two of them started together.\<close>

definition new_call :: "(Date \<Rightarrow> string) \<Rightarrow> string \<Rightarrow> ObjectId \<Rightarrow> ICreateBooking \<Rightarrow> call" where
  "new_call toISOString ownerValue user bookingData =
     \<lparr> c_user = user, c_data = bookingData,
       c_lock = createBookingLock toISOString (cb_roomId bookingData)
                  (cb_checkInDate bookingData) (cb_checkOutDate bookingData) ownerValue \<rparr>"

definition race :: "call \<Rightarrow> call \<Rightarrow> bool list \<Rightarrow> world \<Rightarrow> config" where
  "race ca cb schedule w = run ca cb schedule \<lparr>stageA = Start, stageB = Start, shared = w\<rparr>"

text \<open>
  What a call at a given stage returns when it runs to its end with no other call in
  between: the rest of \<open>withLock\<close> from that stage on.
\<close>

definition finish :: "call \<Rightarrow> error + IBooking \<Rightarrow> world \<Rightarrow> (error + IBooking) \<times> world" where
  "finish c out w =
     (case release (c_lock c) w of
        (Inl e, w1) \<Rightarrow> (Inl e, w1)
      | (Inr released, w1) \<Rightarrow> (out, w1))"

definition after_acquire :: "call \<Rightarrow> (error + bool) \<times> world \<Rightarrow> (error + IBooking) \<times> world" where
  "after_acquire c r =
     (case r of
        (Inl e, w1) \<Rightarrow> (Inl e, w1)
      | (Inr acquired, w1) \<Rightarrow>
          if \<not> acquired then (Inl (FailedToAcquireLock (lockKey (c_lock c))), w1)
          else (case createBooking_section (c_user c) (c_data c) w1 of
                  (out, w2) \<Rightarrow> finish c out w2))"

definition outcome :: "call \<Rightarrow> stage \<Rightarrow> world \<Rightarrow> (error + IBooking) \<times> world" where
  "outcome c st w =
     (case st of
        Start \<Rightarrow> withLock (c_lock c) (createBooking_section (c_user c) (c_data c)) w
      | Attempt k \<Rightarrow> after_acquire c (acquire_loop (c_lock c) k w)
      | Validating \<Rightarrow>
          (case createBooking_section (c_user c) (c_data c) w of (out, w2) \<Rightarrow> finish c out w2)
      | Persisting \<Rightarrow>
          (case section_persist (c_user c) (c_data c) w of (out, w2) \<Rightarrow> finish c out w2)
      | Releasing out \<Rightarrow> finish c out w
      | Finished out \<Rightarrow> (out, w))"

text \<open>A bound on the turns a call with five retries still needs.\<close>

definition rank :: "stage \<Rightarrow> nat" where
  "rank st =
     (case st of
        Start \<Rightarrow> 9
      | Attempt k \<Rightarrow> (if k \<le> 5 then nat (9 - k) else 1)
      | Validating \<Rightarrow> 3
      | Persisting \<Rightarrow> 2
      | Releasing out \<Rightarrow> 1
      | Finished out \<Rightarrow> 0)"

text \<open>
  The sleeps a call has taken; a call still trying for the lock, or turned away for good;
  the lock \<open>K\<close> is held with value \<open>v\<close> for a minute from the start at least; a booking
  as a request asks for it; an outcome that reports the conflict.
\<close>

definition used :: "stage \<Rightarrow> int" where
  "used st = (case st of Start \<Rightarrow> 0 | Attempt k \<Rightarrow> (if k \<le> 5 then k else 5) | _ \<Rightarrow> 5)"

definition waiting :: "string \<Rightarrow> stage \<Rightarrow> bool" where
  "waiting K st =
     (st = Start \<or> (\<exists>k. st = Attempt k \<and> 1 \<le> k \<and> k \<le> 6)
      \<or> st = Finished (Inl (FailedToAcquireLock K)))"

definition held_by :: "string \<Rightarrow> string \<Rightarrow> world \<Rightarrow> world \<Rightarrow> bool" where
  "held_by K v w0 w = (\<exists>e. map_of (kv w) K = Some (Text v, e) \<and> clock w0 + 60000 \<le> e)"

definition good :: "ICreateBooking \<Rightarrow> IBooking \<Rightarrow> bool" where
  "good d b =
     (roomId b = cb_roomId d \<and> status b = PENDING
      \<and> checkInDate b = cb_checkInDate d \<and> checkOutDate b = cb_checkOutDate d)"

definition conflicted :: "error + IBooking \<Rightarrow> bool" where
  "conflicted out = (\<exists>errs. out = Inl (ValidationFailed errs) \<and> DatesTaken \<in> set errs)"

text \<open>
  The store is connected and rejects nothing, the rooms are as at the start, and time has
  not gone back.
\<close>

definition steady :: "world \<Rightarrow> world \<Rightarrow> bool" where
  "steady w0 w =
     (rooms w = rooms w0 \<and> isConnected w \<and> isReady w \<and> faults w = [] \<and> clock w0 \<le> clock w)"

text \<open>A lock with the options of \<open>createBookingLock\<close>.\<close>

definition booking_lock :: "RedisLock \<Rightarrow> bool" where
  "booking_lock lk =
     (ttl lk = 60 \<and> retryDelay lk = 200 \<and> maxRetries lk = 5
      \<and> (\<exists>rest. lockKey lk = ''lock:'' @ rest))"

text \<open>
  Two calls for the same room and interval, under the same key, each with a request that
  passes \<open>validateBooking\<close> in the world of the start, two seconds on.
\<close>

definition setting :: "call \<Rightarrow> call \<Rightarrow> world \<Rightarrow> bool" where
  "setting ca cb w0 =
     (booking_lock (c_lock ca) \<and> booking_lock (c_lock cb)
      \<and> lockKey (c_lock ca) = lockKey (c_lock cb)
      \<and> cb_roomId (c_data ca) = cb_roomId (c_data cb)
      \<and> cb_checkInDate (c_data ca) = cb_checkInDate (c_data cb)
      \<and> cb_checkOutDate (c_data ca) = cb_checkOutDate (c_data cb)
      \<and> isValid (validateBooking (c_data ca) (w0\<lparr>clock := clock w0 + 2000\<rparr>))
      \<and> isValid (validateBooking (c_data cb) (w0\<lparr>clock := clock w0 + 2000\<rparr>)))"

text \<open>
  Call \<open>cx\<close> was the first to take the lock: it is in its critical section with the
  bookings as they were, or has added its booking and holds the lock, or has returned;
  \<open>cy\<close> waits for the lock, or entered after \<open>cx\<close> returned and meets the conflict.
\<close>

definition led :: "call \<Rightarrow> call \<Rightarrow> world \<Rightarrow> stage \<Rightarrow> stage \<Rightarrow> world \<Rightarrow> bool" where
  "led cx cy w0 sx sy w =
     (((sx = Validating \<or> sx = Persisting) \<and> bookings w = bookings w0
         \<and> held_by (lockKey (c_lock cx)) (lockValue (c_lock cx)) w0 w
         \<and> waiting (lockKey (c_lock cx)) sy)
      \<or> (\<exists>b. sx = Releasing (Inr b) \<and> good (c_data cx) b \<and> bookings w = bookings w0 @ [b]
            \<and> held_by (lockKey (c_lock cx)) (lockValue (c_lock cx)) w0 w
            \<and> waiting (lockKey (c_lock cx)) sy)
      \<or> (\<exists>b. sx = Finished (Inr b) \<and> good (c_data cx) b \<and> bookings w = bookings w0 @ [b]
            \<and> ((live w (lockKey (c_lock cx)) = None \<and> waiting (lockKey (c_lock cx)) sy)
                \<or> (held_by (lockKey (c_lock cx)) (lockValue (c_lock cy)) w0 w
                    \<and> (sy = Validating \<or> (\<exists>out. sy = Releasing out \<and> conflicted out)))
                \<or> (live w (lockKey (c_lock cx)) = None
                    \<and> (\<exists>out. sy = Finished out \<and> conflicted out)))))"

text \<open>
  What holds of two such calls all along: no call has the lock yet, or one of them led.
  The clock has moved by the sleeps taken.
\<close>

definition coordinated :: "call \<Rightarrow> call \<Rightarrow> world \<Rightarrow> config \<Rightarrow> bool" where
  "coordinated ca cb w0 cfg =
     (steady w0 (shared cfg)
      \<and> clock (shared cfg) \<le> clock w0 + 200 * (used (stageA cfg) + used (stageB cfg))
      \<and> ((stageA cfg = Start \<and> stageB cfg = Start \<and> bookings (shared cfg) = bookings w0
            \<and> live (shared cfg) (lockKey (c_lock ca)) = None)
          \<or> led ca cb w0 (stageA cfg) (stageB cfg) (shared cfg)
          \<or> led cb ca w0 (stageB cfg) (stageA cfg) (shared cfg)))"


section \<open>Example worlds\<close>

definition world0 :: world where
  "world0 = \<lparr> isConnected = True, isReady = True, kv = [], faults = [], effects = [],
      clock = 0, console = [], bookings = [], rooms = [],
      genId = (\<lambda>n. replicate (Suc n) (CHR ''a'')), idCount = 0 \<rparr>"

definition lockA :: RedisLock where
  "lockA = new_RedisLock ''room:r1''
     \<lparr> opt_ttl = None, opt_retryDelay = None, opt_maxRetries = Some 2 \<rparr> ''1-ownerA''"

definition lockB :: RedisLock where
  "lockB = new_RedisLock ''room:r1''
     \<lparr> opt_ttl = None, opt_retryDelay = None, opt_maxRetries = Some 2 \<rparr> ''2-ownerB''"

text \<open>The key of \<open>lockA\<close> and \<open>lockB\<close> is held by owner B until time 100000.\<close>

definition world_held :: world where
  "world_held = world0\<lparr>kv := [(''lock:room:r1'', Text ''2-ownerB'', 100000)]\<rparr>"

text \<open>A critical section that raises.\<close>

definition failing_section :: "world \<Rightarrow> (error + nat) \<times> world" where
  "failing_section w = (Inl (OtherError ''boom''), w)"

lemmas lock_eval = world0_def lockA_def lockB_def world_held_def failing_section_def
  acquire_loop.simps new_RedisLock_def or_default_def acquire_def isConnectionActive_def getClient_def
  client_set_NX_EX_def live_def live_at_def consume_fault_def command_fails_def did_def
  say_def sleep_def Let_def release_def release_try_def client_eval_release_def
  release_script_def

text \<open>
  A room for two at 100 a night, one pending stay [Feb 1, Feb 5) of 2024 in it, and
  requests for it. \<open>feb\<close> and \<open>march\<close> give midnight UTC of a day of February and
  March 2024.
\<close>

definition room1 :: IRoom where
  "room1 = \<lparr> roomOid = ''65a000000000000000000001'', roomNumber = ''101'',
      category = BASIC, isActive = True, maxOccupancy = 2, basePrice = 100 \<rparr>"

definition feb :: "int \<Rightarrow> Date" where
  "feb day = 1706745600000 + (day - 1) * 86400000"

definition march :: "int \<Rightarrow> Date" where
  "march day = 1709251200000 + (day - 1) * 86400000"

definition stay_feb :: IBooking where
  "stay_feb = \<lparr> bookingId = ''65b000000000000000000001'', userId = ''65c000000000000000000001'',
      roomId = ''65a000000000000000000001'',
      checkInDate = feb 1, checkOutDate = feb 5, numberOfGuests = 2,
      totalAmount = 400, status = PENDING, paymentStatus = PAYMENT_PENDING,
      specialRequests = None, createdAt = 0, updatedAt = 0 \<rparr>"

definition candidate :: "Date \<Rightarrow> Date \<Rightarrow> int \<Rightarrow> ICreateBooking" where
  "candidate checkIn checkOut guests =
     \<lparr> cb_roomId = ''65a000000000000000000001'', cb_checkInDate = checkIn,
       cb_checkOutDate = checkOut, cb_numberOfGuests = guests, cb_specialRequests = None \<rparr>"

text \<open>The clock stands at 1 January 2024.\<close>

definition world_feb :: world where
  "world_feb = world0\<lparr>rooms := [room1], bookings := [stay_feb], clock := 1704067200000\<rparr>"

definition world_no_room :: world where
  "world_no_room = world_feb\<lparr>rooms := []\<rparr>"

definition world_completed :: world where
  "world_completed = world0\<lparr>bookings := [stay_feb\<lparr>status := COMPLETED\<rparr>], clock := 5\<rparr>"

definition world_big :: world where
  "world_big = world0\<lparr>rooms := [room1\<lparr>maxOccupancy := 12\<rparr>], clock := feb 1\<rparr>"

definition example_iso :: "Date \<Rightarrow> string" where
  "example_iso d =
     (if d = feb 3 then ''2024-02-03T00:00:00.000Z''
      else if d = feb 6 then ''2024-02-06T00:00:00.000Z''
      else if d = march 1 then ''2024-03-01T00:00:00.000Z''
      else if d = march 4 then ''2024-03-04T00:00:00.000Z''
      else ''other'')"

definition example_parse :: "string \<Rightarrow> Date option" where
  "example_parse s =
     (if s = ''2024-03-01T00:00:00.000Z'' then Some (march 1)
      else if s = ''2024-03-04T00:00:00.000Z'' then Some (march 4)
      else if s = ''2024-04-30T00:00:00.000Z'' then Some (march 61)
      else None)"

definition body_of :: "string \<Rightarrow> string \<Rightarrow> rat \<Rightarrow> booking_body" where
  "body_of checkIn checkOut guests =
     \<lparr> body_roomId = Some (JString ''65a000000000000000000001''),
       body_checkInDate = Some (JString checkIn),
       body_checkOutDate = Some (JString checkOut),
       body_numberOfGuests = Some (JNumber guests),
       body_specialRequests = None \<rparr>"

definition query :: "Date \<Rightarrow> Date \<Rightarrow> IRoomAvailabilityFilter" where
  "query checkIn checkOut =
     \<lparr> af_checkInDate = checkIn, af_checkOutDate = checkOut, af_excludeBookingId = None,
       af_category = None, af_maxOccupancy = None \<rparr>"

text \<open>
  The cache holds the verdict "available" for the room and [Feb 3, Feb 6), written before
  the stay was booked and not yet expired.
\<close>

definition world_stale :: world where
  "world_stale = world_feb\<lparr>kv :=
     [(availability_key ''65a000000000000000000001''
         (''2024-02-03T00:00:00.000Z'' @ ''_'' @ ''2024-02-06T00:00:00.000Z''),
       AvailabilityJson True 1704067100000, 1704067400000)]\<rparr>"

text \<open>
  The stay has been cancelled, and the cache still holds the verdict "not available" for
  the room and [Feb 3, Feb 6).
\<close>

definition world_stale_taken :: world where
  "world_stale_taken = world_feb\<lparr>bookings := [stay_feb\<lparr>status := CANCELLED\<rparr>], kv :=
     [(availability_key ''65a000000000000000000001''
         (''2024-02-03T00:00:00.000Z'' @ ''_'' @ ''2024-02-06T00:00:00.000Z''),
       AvailabilityJson False 1704067100000, 1704067400000)]\<rparr>"

text \<open>The cache holds a verdict for the room and an entry of the search namespace.\<close>

definition world_cached :: world where
  "world_cached = world0\<lparr>kv :=
     [(availability_key ''65a000000000000000000001''
         (''2024-02-03T00:00:00.000Z'' @ ''_'' @ ''2024-02-06T00:00:00.000Z''),
       AvailabilityJson True 0, 300000),
      (''room:availability:search:all'', AvailabilityJson True 0, 300000)]\<rparr>"

lemmas booking_eval = world0_def room1_def feb_def march_def stay_feb_def candidate_def
  world_feb_def world_no_room_def world_big_def example_iso_def world_stale_def query_def
  validateBooking_def push_if_def findRoom_def coll_find_def conflict_filter_def Let_def
  availability_key_def room_availability_def cache_read_def cache_write_def
  getRoomAvailability_def setRoomAvailability_def client_get_def client_setEx_def
  isConnectionActive_def getClient_def command_fails_def consume_fault_def live_def live_at_def
  say_def totalNights_def

lemmas schema_eval = createBookingSchema_def objectIdSchema_def dateStringSchema_def
  futureDateSchema_def numberOfGuestsSchema_def specialRequestsSchema_def diffDays_def
  is_hex_def example_parse_def body_of_def march_def feb_def

lemmas cache_eval = world0_def world_cached_def availability_key_def
  redis_invalidateRoomCache_def redis_invalidate_try_def service_invalidateRoomCache_def
  service_invalidate_try_def client_scan_def client_del_def getRoomAvailability_def
  client_get_def isConnectionActive_def getClient_def command_fails_def consume_fault_def
  live_def live_at_def say_def Let_def

text \<open>
  The room is free in March, the clock stands at 1 February 2024, and the cache holds the
  verdict "available" for [Mar 1, Mar 4). \<open>booked_march\<close> is the booking that a request
  for these three nights creates there.
\<close>

definition world_march :: world where
  "world_march = world0\<lparr>rooms := [room1], clock := feb 1, kv :=
     [(availability_key ''65a000000000000000000001''
         (''2024-03-01T00:00:00.000Z'' @ ''_'' @ ''2024-03-04T00:00:00.000Z''),
       AvailabilityJson True 1706745500000, 1706745800000)]\<rparr>"

definition booked_march :: IBooking where
  "booked_march = \<lparr> bookingId = ''a'', userId = ''65c000000000000000000001'',
      roomId = ''65a000000000000000000001'',
      checkInDate = march 1, checkOutDate = march 4, numberOfGuests = 2,
      totalAmount = 300, status = PENDING, paymentStatus = PAYMENT_PENDING,
      specialRequests = None, createdAt = feb 1, updatedAt = feb 1 \<rparr>"

definition march_request :: "world \<Rightarrow> (error + IBooking) \<times> world" where
  "march_request w =
     createBooking example_iso ''1-ownerA'' ''65c000000000000000000001''
       (candidate (march 1) (march 4) 2) w"

lemmas create_eval = createBooking_def createBookingLock_def withLock_def
  createBooking_section_def insertOne_def invalidate_if_active_def
  world_march_def booked_march_def march_request_def lock_eval booking_eval cache_eval

lemmas race_eval = race_def new_call_def step_def step_call_def attempt_step_def
  section_validate_def section_persist_def create_eval

section \<open>The distributed lock: acquire, release, withLock\<close>

lemma client_set_effects:
  "effects (snd (client_set_NX_EX k v ex w)) =
     effects w @ [SetNX k v ex (reply_of (fst (client_set_NX_EX k v ex w)))]"
  by (simp add: client_set_NX_EX_def Let_def did_def consume_fault_def split: option.splits)

lemma client_set_results:
  "fst (client_set_NX_EX k v ex w) \<in> {Inl StoreFailure, Inr None, Inr (Some ''OK'')}"
  by (simp add: client_set_NX_EX_def Let_def split: option.splits)

lemma intersperse_Cons: "xs \<noteq> [] \<Longrightarrow> intersperse s (x # xs) = x # s # intersperse s xs"
  by (cases xs) auto

text \<open>
  The loop from any attempt on: it issues between one and \<open>maxRetries - attempt + 1\<close>
  \<open>SET\<close> commands, sleeps \<open>retryDelay\<close> between two of them, stops at the first
  \<open>OK\<close>, and its outcome is read off the last answer.
\<close>

lemma acquire_loop_replies:
  "attempt \<le> maxRetries lk \<Longrightarrow>
   \<exists>replies. replies \<noteq> [] \<and> int (length replies) \<le> maxRetries lk - attempt + 1
     \<and> effects (snd (acquire_loop lk attempt w)) =
         effects w @ intersperse (Sleep (retryDelay lk))
                       (map (SetNX (lockKey lk) (lockValue lk) (ttl lk)) replies)
     \<and> OK \<notin> set (butlast replies)
     \<and> (last replies = OK \<or> int (length replies) = maxRetries lk - attempt + 1)
     \<and> fst (acquire_loop lk attempt w) = acquire_outcome (last replies)"
proof (induction "nat (maxRetries lk - attempt)" arbitrary: attempt w)
  case 0
  let ?c = "client_set_NX_EX (lockKey lk) (lockValue lk) (ttl lk) w"
  let ?ev = "SetNX (lockKey lk) (lockValue lk) (ttl lk)"
  obtain r w1 where c: "?c = (r, w1)" by (cases ?c)
  have eff: "effects w1 = effects w @ [?ev (reply_of r)]"
    using client_set_effects[of "lockKey lk" "lockValue lk" "ttl lk" w] c by simp
  have rs: "r = Inl StoreFailure \<or> r = Inr None \<or> r = Inr (Some ''OK'')"
    using client_set_results[of "lockKey lk" "lockValue lk" "ttl lk" w] c by simp
  from 0 have final: "attempt = maxRetries lk" by simp
  then have "acquire_loop lk attempt w =
      (case r of
         Inr res \<Rightarrow>
           if res = Some ''OK''
           then (Inr True, say (LogLockAcquired (lockKey lk) (lockValue lk)) w1)
           else (Inr False, say (LogLockGaveUp (maxRetries lk) (lockKey lk)) w1)
       | Inl e \<Rightarrow> (Inl e, say (ErrLockAcquisition (attempt + 1) e) w1))"
    using c
    by (subst acquire_loop.simps, subst (2) acquire_loop.simps)
       (simp add: Let_def split: sum.splits)
  then show ?case
    using rs eff final
    by (intro exI[of _ "[reply_of r]"]) (auto simp: say_def acquire_outcome_def)
next
  case (Suc n)
  let ?c = "client_set_NX_EX (lockKey lk) (lockValue lk) (ttl lk) w"
  let ?ev = "SetNX (lockKey lk) (lockValue lk) (ttl lk)"
  obtain r w1 where c: "?c = (r, w1)" by (cases ?c)
  have eff: "effects w1 = effects w @ [?ev (reply_of r)]"
    using client_set_effects[of "lockKey lk" "lockValue lk" "ttl lk" w] c by simp
  have rs: "r = Inl StoreFailure \<or> r = Inr None \<or> r = Inr (Some ''OK'')"
    using client_set_results[of "lockKey lk" "lockValue lk" "ttl lk" w] c by simp
  from Suc.hyps(2) have lt: "attempt < maxRetries lk" by simp
  show ?case
  proof (cases "r = Inr (Some ''OK'')")
    case True
    then have "acquire_loop lk attempt w =
        (Inr True, say (LogLockAcquired (lockKey lk) (lockValue lk)) w1)"
      using c lt by (subst acquire_loop.simps) simp
    then show ?thesis using eff True lt
      by (intro exI[of _ "[OK]"]) (auto simp: say_def acquire_outcome_def)
  next
    case notok: False
    define w2 where "w2 =
      (case r of
         Inr res \<Rightarrow> sleep (retryDelay lk)
                     (say (LogLockBusy (retryDelay lk) (attempt + 1) (maxRetries lk)) w1)
       | Inl e \<Rightarrow> sleep (retryDelay lk) (say (ErrLockAcquisition (attempt + 1) e) w1))"
    have step: "acquire_loop lk attempt w = acquire_loop lk (attempt + 1) w2"
      using c lt notok rs by (subst acquire_loop.simps) (auto simp: w2_def Let_def)
    have eff2: "effects w2 = effects w @ [?ev (reply_of r), Sleep (retryDelay lk)]"
      using eff rs by (auto simp: w2_def sleep_def say_def did_def)
    have n: "n = nat (maxRetries lk - (attempt + 1))" using Suc.hyps(2) by simp
    have le: "attempt + 1 \<le> maxRetries lk" using lt by simp
    obtain replies where R: "replies \<noteq> []"
      "int (length replies) \<le> maxRetries lk - (attempt + 1) + 1"
      "effects (snd (acquire_loop lk (attempt + 1) w2)) =
           effects w2 @ intersperse (Sleep (retryDelay lk)) (map ?ev replies)"
      "OK \<notin> set (butlast replies)"
      "last replies = OK \<or> int (length replies) = maxRetries lk - (attempt + 1) + 1"
      "fst (acquire_loop lk (attempt + 1) w2) = acquire_outcome (last replies)"
      using Suc.hyps(1)[OF n le, of w2] by blast
    have rne: "reply_of r \<noteq> OK" using rs notok by auto
    show ?thesis
      using R rne step eff2
      by (intro exI[of _ "reply_of r # replies"]) (auto simp: intersperse_Cons)
  qed
qed

text \<open>\<open>acquire\<close> with the connection active and a retry budget that is not negative.\<close>

lemma acquire_active:
  assumes "isConnectionActive w" and "0 \<le> maxRetries lk"
  shows "\<exists>replies. replies \<noteq> [] \<and> length replies \<le> 1 + nat (maxRetries lk)
     \<and> effects (snd (acquire lk w)) =
         effects w @ intersperse (Sleep (retryDelay lk))
                       (map (SetNX (lockKey lk) (lockValue lk) (ttl lk)) replies)
     \<and> OK \<notin> set (butlast replies)
     \<and> (last replies = OK \<or> length replies = 1 + nat (maxRetries lk))
     \<and> fst (acquire lk w) = acquire_outcome (last replies)"
proof -
  have a: "acquire lk w = acquire_loop lk 0 w"
    using assms(1) by (simp add: acquire_def isConnectionActive_def getClient_def)
  obtain replies where R: "replies \<noteq> []"
      "int (length replies) \<le> maxRetries lk - 0 + 1"
      "effects (snd (acquire_loop lk 0 w)) =
           effects w @ intersperse (Sleep (retryDelay lk))
              (map (SetNX (lockKey lk) (lockValue lk) (ttl lk)) replies)"
      "OK \<notin> set (butlast replies)"
      "last replies = OK \<or> int (length replies) = maxRetries lk - 0 + 1"
      "fst (acquire_loop lk 0 w) = acquire_outcome (last replies)"
    using acquire_loop_replies[OF assms(2), of w] by blast
  from R(2) have l1: "length replies \<le> 1 + nat (maxRetries lk)" using assms(2) by linarith
  from R(5) have l2: "last replies = OK \<or> length replies = 1 + nat (maxRetries lk)"
    using assms(2) by auto
  show ?thesis
    using R(1,3,4,6) l1 l2 unfolding a by blast
qed

text \<open>
  The connection is not ready and the key is held by another owner: \<open>acquire\<close> raises
  at once, with no attempt and no sleep.
\<close>

theorem acquire_raises_when_unreachable:
  "live (world_held\<lparr>isReady := False\<rparr>) ''lock:room:r1'' = Some (Text ''2-ownerB'')
   \<and> fst (acquire lockA (world_held\<lparr>isReady := False\<rparr>)) = Inl RedisNotActiveForLocking
   \<and> effects (snd (acquire lockA (world_held\<lparr>isReady := False\<rparr>))) = []"
  by (simp add: lock_eval)

text \<open>
  C5, amended. When the connection is not active, \<open>acquire\<close> raises at once and leaves
  the world as it is. With the connection active and a negative \<open>maxRetries\<close>, it makes
  no attempt and returns false. With the connection active and \<open>maxRetries \<ge> 0\<close>, it
  issues the atomic set-if-absent-with-expiry at least once and at most
  \<open>1 + maxRetries\<close> times, with a sleep of \<open>retryDelay\<close> between two attempts and
  none after the last. No attempt before the last was answered \<open>OK\<close>, so it returns
  at once when the set succeeds; unless it succeeded, it used all \<open>1 + maxRetries\<close>
  attempts. It returns true when the last answer was \<open>OK\<close>, false when the key was
  still held at the last attempt, and raises the store's error when the last attempt
  was rejected; a rejected earlier attempt is just one of the attempts.
\<close>

theorem acquire_contract:
  "(\<not> isConnectionActive w \<longrightarrow> acquire lk w = (Inl RedisNotActiveForLocking, w))
   \<and> (isConnectionActive w \<and> maxRetries lk < 0 \<longrightarrow>
        fst (acquire lk w) = Inr False \<and> effects (snd (acquire lk w)) = effects w)
   \<and> (isConnectionActive w \<and> 0 \<le> maxRetries lk \<longrightarrow>
        (\<exists>replies. replies \<noteq> [] \<and> length replies \<le> 1 + nat (maxRetries lk)
           \<and> effects (snd (acquire lk w)) =
               effects w @ intersperse (Sleep (retryDelay lk))
                             (map (SetNX (lockKey lk) (lockValue lk) (ttl lk)) replies)
           \<and> OK \<notin> set (butlast replies)
           \<and> (last replies = OK \<or> length replies = 1 + nat (maxRetries lk))
           \<and> fst (acquire lk w) = acquire_outcome (last replies)))"
proof -
  have a: "acquire lk w = (Inl RedisNotActiveForLocking, w)" if "\<not> isConnectionActive w"
    using that by (simp add: acquire_def)
  have b: "fst (acquire lk w) = Inr False \<and> effects (snd (acquire lk w)) = effects w"
    if "isConnectionActive w" and "maxRetries lk < 0"
  proof -
    have "acquire lk w = acquire_loop lk 0 w"
      using that(1) by (simp add: acquire_def isConnectionActive_def getClient_def)
    also have "\<dots> = (Inr False, say (LogLockGaveUp (maxRetries lk) (lockKey lk)) w)"
      using that(2) by (subst acquire_loop.simps) simp
    finally show ?thesis by (simp add: say_def)
  qed
  have c: "\<exists>replies. replies \<noteq> [] \<and> length replies \<le> 1 + nat (maxRetries lk)
           \<and> effects (snd (acquire lk w)) =
               effects w @ intersperse (Sleep (retryDelay lk))
                             (map (SetNX (lockKey lk) (lockValue lk) (ttl lk)) replies)
           \<and> OK \<notin> set (butlast replies)
           \<and> (last replies = OK \<or> length replies = 1 + nat (maxRetries lk))
           \<and> fst (acquire lk w) = acquire_outcome (last replies)"
    if "isConnectionActive w" and "0 \<le> maxRetries lk"
    using acquire_active[OF that] .
  from a b c show ?thesis by blast
qed

text \<open>
  The key is held by another owner throughout: three attempts (\<open>maxRetries = 2\<close>), two
  sleeps of the default 100 ms, and \<open>false\<close>. A store that was never connected: the
  error at once. A budget of \<open>-1\<close>: \<open>false\<close> with no attempt.
\<close>

theorem acquire_contract_witness:
  "isConnectionActive world_held \<and> 0 \<le> maxRetries lockA
   \<and> fst (acquire lockA world_held) = Inr False
   \<and> effects (snd (acquire lockA world_held)) =
       [SetNX ''lock:room:r1'' ''1-ownerA'' 30 Nil, Sleep 100,
        SetNX ''lock:room:r1'' ''1-ownerA'' 30 Nil, Sleep 100,
        SetNX ''lock:room:r1'' ''1-ownerA'' 30 Nil]
   \<and> (\<exists>replies. length replies \<le> 1 + nat (maxRetries lockA)
        \<and> fst (acquire lockA world_held) = acquire_outcome (last replies))
   \<and> \<not> isConnectionActive (world0\<lparr>isConnected := False, isReady := False\<rparr>)
   \<and> fst (acquire lockA (world0\<lparr>isConnected := False, isReady := False\<rparr>))
       = Inl RedisNotActiveForLocking
   \<and> maxRetries (lockA\<lparr>maxRetries := - 1\<rparr>) < 0
   \<and> fst (acquire (lockA\<lparr>maxRetries := - 1\<rparr>) world0) = Inr False
   \<and> effects (snd (acquire (lockA\<lparr>maxRetries := - 1\<rparr>) world0)) = []"
proof -
  have h1: "isConnectionActive world_held" by (simp add: lock_eval)
  have h2: "0 \<le> maxRetries lockA" by (simp add: lock_eval)
  have h3: "\<not> isConnectionActive (world0\<lparr>isConnected := False, isReady := False\<rparr>)"
    by (simp add: lock_eval)
  have h4: "isConnectionActive world0" "maxRetries (lockA\<lparr>maxRetries := - 1\<rparr>) < 0"
    "effects world0 = []"
    by (simp_all add: lock_eval)
  have r: "fst (acquire lockA world_held) = Inr False" by (simp add: lock_eval)
  have e: "effects (snd (acquire lockA world_held)) =
       [SetNX ''lock:room:r1'' ''1-ownerA'' 30 Nil, Sleep 100,
        SetNX ''lock:room:r1'' ''1-ownerA'' 30 Nil, Sleep 100,
        SetNX ''lock:room:r1'' ''1-ownerA'' 30 Nil]"
    by (simp add: lock_eval)
  from acquire_contract[of world_held lockA] h1 h2 have
    "\<exists>replies. length replies \<le> 1 + nat (maxRetries lockA)
        \<and> fst (acquire lockA world_held) = acquire_outcome (last replies)"
    by blast
  moreover from acquire_contract[of "world0\<lparr>isConnected := False, isReady := False\<rparr>" lockA] h3
  have "fst (acquire lockA (world0\<lparr>isConnected := False, isReady := False\<rparr>))
       = Inl RedisNotActiveForLocking"
    by simp
  moreover from acquire_contract[of world0 "lockA\<lparr>maxRetries := - 1\<rparr>"] h4
  have "fst (acquire (lockA\<lparr>maxRetries := - 1\<rparr>) world0) = Inr False
     \<and> effects (snd (acquire (lockA\<lparr>maxRetries := - 1\<rparr>) world0)) = []"
    by simp
  ultimately show ?thesis using h1 h2 h3 h4(2) r e by blast
qed

lemma live_consume_fault [simp]: "live (consume_fault w) k = live w k"
  by (simp add: live_def consume_fault_def)

lemma live_say [simp]: "live (say l w) k = live w k"
  by (simp add: live_def say_def)

lemma live_delete:
  "live (w\<lparr>kv := AList.delete k (kv w)\<rparr>) k' = (if k' = k then None else live w k')"
  by (simp add: live_def live_at_def delete_conv')

lemma release_effect:
  "fst (release lk w) =
     Inr (isConnectionActive w \<and> \<not> command_fails w \<and> live w (lockKey lk) = Some (Text (lockValue lk)))
   \<and> kv (snd (release lk w)) =
       (if fst (release lk w) = Inr True then AList.delete (lockKey lk) (kv w) else kv w)
   \<and> live (snd (release lk w)) (lockKey lk) =
       (if fst (release lk w) = Inr True then None else live w (lockKey lk))
   \<and> (\<exists>l. console (snd (release lk w)) = console w @ [l]
        \<and> (fst (release lk w) = Inr False) =
            (l = WarnCannotRelease \<or> l = WarnLockNotReleased (lockKey lk)
             \<or> (\<exists>e. l = ErrLockRelease e)))"
proof (cases "isConnectionActive w")
  case False
  then show ?thesis by (simp add: release_def say_def live_def)
next
  case active: True
  then have conn: "isConnected w" by (simp add: isConnectionActive_def)
  show ?thesis
  proof (cases "command_fails w")
    case True
    then have "release lk w = (Inr False, say (ErrLockRelease StoreFailure) (consume_fault w))"
      using active conn
      by (simp add: release_def release_try_def getClient_def client_eval_release_def Let_def)
    then show ?thesis using True active by (simp add: say_def consume_fault_def live_def)
  next
    case nofail: False
    show ?thesis
    proof (cases "live w (lockKey lk) = Some (Text (lockValue lk))")
      case True
      then have "release lk w = (Inr True,
          say (LogLockReleased (lockKey lk))
            ((consume_fault w)\<lparr>kv := AList.delete (lockKey lk) (kv (consume_fault w))\<rparr>))"
        using active conn nofail
        by (simp add: release_def release_try_def getClient_def client_eval_release_def Let_def
            release_script_def)
      then show ?thesis using True active nofail
        by (simp add: live_delete) (simp add: say_def consume_fault_def)
    next
      case False
      then have "release lk w =
          (Inr False, say (WarnLockNotReleased (lockKey lk)) (consume_fault w))"
        using active conn nofail
        by (simp add: release_def release_try_def getClient_def client_eval_release_def Let_def
            release_script_def)
      then show ?thesis using False active nofail
        by (simp) (simp add: say_def consume_fault_def)
    qed
  qed
qed

text \<open>
  C4. \<open>release\<close> never raises. It returns true exactly when the connection is
  active, the store accepts the command and the key's current value is this lock's own
  owner value; exactly then the key is deleted, and otherwise the store is left as it
  was (so a key that has expired, or that another owner has taken since, is not
  touched). It writes one console line, and when it returns false that line is a
  warning or an error.
\<close>

theorem release_contract:
  "fst (release lk w) =
     Inr (isConnectionActive w \<and> \<not> command_fails w \<and> live w (lockKey lk) = Some (Text (lockValue lk)))
   \<and> kv (snd (release lk w)) =
       (if fst (release lk w) = Inr True then AList.delete (lockKey lk) (kv w) else kv w)
   \<and> live (snd (release lk w)) (lockKey lk) =
       (if fst (release lk w) = Inr True then None else live w (lockKey lk))
   \<and> (\<exists>l. console (snd (release lk w)) = console w @ [l]
        \<and> (fst (release lk w) = Inr False) =
            (l = WarnCannotRelease \<or> l = WarnLockNotReleased (lockKey lk)
             \<or> (\<exists>e. l = ErrLockRelease e)))"
  by (rule release_effect)

text \<open>
  Owner A acquires, the key expires (the clock reaches its expiry time), owner B
  acquires, and A releases with its stale value: \<open>release\<close> returns false and the key
  is still B's.
\<close>

theorem release_contract_witness:
  "fst (acquire lockA world0) = Inr True
   \<and> fst (acquire lockB ((snd (acquire lockA world0))\<lparr>clock := 30000\<rparr>)) = Inr True
   \<and> fst (release lockA (snd (acquire lockB ((snd (acquire lockA world0))\<lparr>clock := 30000\<rparr>))))
       = Inr False
   \<and> live (snd (release lockA
              (snd (acquire lockB ((snd (acquire lockA world0))\<lparr>clock := 30000\<rparr>)))))
        (lockKey lockA) = Some (Text (lockValue lockB))"
  using release_contract[of lockA
      "snd (acquire lockB ((snd (acquire lockA world0))\<lparr>clock := 30000\<rparr>))"]
  by (simp add: lock_eval)

lemma release_never_throws_aux: "\<exists>b. fst (release lk w) = Inr b"
  by (auto simp: release_def split: prod.splits sum.splits)

lemma withLock_cases:
  "withLock lk fn w =
     (if fst (acquire lk w) = Inr True
      then (fst (fn (snd (acquire lk w))), snd (release lk (snd (fn (snd (acquire lk w))))))
      else (Inl (case fst (acquire lk w) of
                   Inl e \<Rightarrow> e
                 | Inr b \<Rightarrow> FailedToAcquireLock (lockKey lk)),
            snd (acquire lk w)))"
proof -
  obtain r w1 where a: "acquire lk w = (r, w1)" by (cases "acquire lk w")
  obtain out w2 where f: "fn w1 = (out, w2)" by (cases "fn w1")
  obtain b w3 where rel: "release lk w2 = (Inr b, w3)"
    using release_never_throws_aux[of lk w2] by (cases "release lk w2") auto
  show ?thesis
    using a f rel by (cases r) (auto simp: withLock_def)
qed

text \<open>
  C3. \<open>withLock\<close> runs \<open>fn\<close> only when \<open>acquire\<close> returned true, in the world
  \<open>acquire\<close> left; it then runs \<open>release\<close> on the world \<open>fn\<close> left, whether \<open>fn\<close>
  returned or raised, and hands \<open>fn\<close>'s value or error to the caller. When \<open>acquire\<close>
  returned false or raised, the outcome is an error (the lock failure, or the error of
  \<open>acquire\<close>), and the world is the one \<open>acquire\<close> left: \<open>fn\<close> has not run.
\<close>

theorem withLock_contract:
  "withLock lk fn w =
     (if fst (acquire lk w) = Inr True
      then (fst (fn (snd (acquire lk w))), snd (release lk (snd (fn (snd (acquire lk w))))))
      else (Inl (case fst (acquire lk w) of
                   Inl e \<Rightarrow> e
                 | Inr b \<Rightarrow> FailedToAcquireLock (lockKey lk)),
            snd (acquire lk w)))"
  by (rule withLock_cases)

text \<open>
  A section that raises under a free lock: the caller gets the section's error and the
  key is free again. Under a held lock: the caller gets the lock failure.
\<close>

theorem withLock_contract_witness:
  "fst (acquire lockA world0) = Inr True
   \<and> fst (withLock lockA failing_section world0) = Inl (OtherError ''boom'')
   \<and> live (snd (withLock lockA failing_section world0)) (lockKey lockA) = None
   \<and> fst (acquire lockA world_held) = Inr False
   \<and> fst (withLock lockA failing_section world_held) = Inl (FailedToAcquireLock ''lock:room:r1'')"
  using withLock_contract[of lockA failing_section world0]
    withLock_contract[of lockA failing_section world_held]
  by (simp add: lock_eval)

section \<open>Cancelling and confirming\<close>

lemmas world_updates = say_def did_def consume_fault_def

lemma snd_client_scan: "snd (client_scan p w) = consume_fault w"
  by (simp add: client_scan_def Let_def)

lemma snd_client_get: "snd (client_get k w) = consume_fault w"
  by (simp add: client_get_def Let_def)

lemma bookings_client_del [simp]: "bookings (snd (client_del ks w)) = bookings w"
  by (simp add: client_del_def Let_def world_updates)

lemma bookings_service_invalidate [simp]:
  "bookings (snd (service_invalidateRoomCache room w)) = bookings w"
  by (simp add: service_invalidateRoomCache_def service_invalidate_try_def case_prod_beta
      snd_client_scan Let_def world_updates split: sum.splits)

lemma bookings_invalidate_if_active:
  "(\<And>r w. bookings (snd (ivd r w)) = bookings w) \<Longrightarrow>
   bookings (invalidate_if_active ivd room w) = bookings w"
  by (simp add: invalidate_if_active_def case_prod_beta world_updates split: sum.splits)

lemma update_first_none: "\<forall>x\<in>set xs. \<not> p x \<Longrightarrow> update_first p f xs = xs"
  by (induction xs) auto

text \<open>
  C9. \<open>cancelBooking\<close> looks the booking up by its identifier alone: when one exists,
  whatever its status, it is returned with status \<open>cancelled\<close> (and the update time),
  and stored so; it raises exactly when no booking has the identifier. \<open>confirmBooking\<close>
  looks for the identifier and the status \<open>pending\<close>: it confirms a pending booking
  and raises for every other.
\<close>

theorem cancelBooking_any_status:
  "fst (cancelBooking oid w) =
     (case List.find (\<lambda>b. bookingId b = oid) (bookings w) of
        None \<Rightarrow> Inl BookingNotFound
      | Some b \<Rightarrow> Inr (b\<lparr>status := CANCELLED, updatedAt := clock w\<rparr>))
   \<and> bookings (snd (cancelBooking oid w)) =
       update_first (\<lambda>b. bookingId b = oid) (\<lambda>b. b\<lparr>status := CANCELLED, updatedAt := clock w\<rparr>)
         (bookings w)
   \<and> ((\<exists>e. fst (cancelBooking oid w) = Inl e) = (oid \<notin> bookingId ` set (bookings w)))
   \<and> fst (confirmBooking oid w) =
     (case List.find (\<lambda>b. bookingId b = oid \<and> status b = PENDING) (bookings w) of
        None \<Rightarrow> Inl BookingNotFoundOrCannotBeConfirmed
      | Some b \<Rightarrow> Inr (b\<lparr>status := CONFIRMED, updatedAt := clock w\<rparr>))"
proof -
  let ?upd = "\<lambda>b. b\<lparr>status := CANCELLED, updatedAt := clock w\<rparr>"
  have m1: "matches (AllMatch [Where F_id (Equals (VId oid))]) = (\<lambda>b. bookingId b = oid)"
    by (rule ext) simp
  have m2: "matches (AllMatch [Where F_id (Equals (VId oid)),
                               Where F_status (Equals (VStatus PENDING))])
      = (\<lambda>b. bookingId b = oid \<and> status b = PENDING)"
    by (rule ext) simp
  have inv: "\<And>r w'. bookings (invalidate_if_active service_invalidateRoomCache r w') = bookings w'"
    by (rule bookings_invalidate_if_active) simp
  have a: "fst (cancelBooking oid w) =
     (case List.find (\<lambda>b. bookingId b = oid) (bookings w) of
        None \<Rightarrow> Inl BookingNotFound
      | Some b \<Rightarrow> Inr (?upd b))"
    by (simp add: cancelBooking_def findOneAndUpdate_def m1 split: option.splits)
  have b: "bookings (snd (cancelBooking oid w)) =
       update_first (\<lambda>b. bookingId b = oid) ?upd (bookings w)"
  proof (cases "List.find (\<lambda>b. bookingId b = oid) (bookings w)")
    case None
    then have "\<forall>x\<in>set (bookings w). \<not> bookingId x = oid" by (simp add: find_None_iff)
    then have "update_first (\<lambda>b. bookingId b = oid) ?upd (bookings w) = bookings w"
      by (rule update_first_none)
    then show ?thesis using None
      by (simp add: cancelBooking_def findOneAndUpdate_def m1)
  next
    case (Some x)
    then show ?thesis
      by (simp add: cancelBooking_def findOneAndUpdate_def m1 inv)
  qed
  have c: "(\<exists>e. fst (cancelBooking oid w) = Inl e) = (oid \<notin> bookingId ` set (bookings w))"
  proof (cases "List.find (\<lambda>b. bookingId b = oid) (bookings w)")
    case None
    then have "oid \<notin> bookingId ` set (bookings w)" by (auto simp: find_None_iff)
    then show ?thesis unfolding a using None by simp
  next
    case (Some x)
    then have "x \<in> set (bookings w) \<and> bookingId x = oid"
      by (auto simp: find_Some_iff)
    then show ?thesis unfolding a using Some by auto
  qed
  have d: "fst (confirmBooking oid w) =
     (case List.find (\<lambda>b. bookingId b = oid \<and> status b = PENDING) (bookings w) of
        None \<Rightarrow> Inl BookingNotFoundOrCannotBeConfirmed
      | Some b \<Rightarrow> Inr (b\<lparr>status := CONFIRMED, updatedAt := clock w\<rparr>))"
    by (simp add: confirmBooking_def findOneAndUpdate_def m2 split: option.splits)
  from a b c d show ?thesis by blast
qed

text \<open>A completed booking is cancelled; it cannot be confirmed.\<close>

theorem cancelBooking_any_status_witness:
  "status (stay_feb\<lparr>status := COMPLETED\<rparr>) = COMPLETED
   \<and> fst (cancelBooking ''65b000000000000000000001'' world_completed)
       = Inr (stay_feb\<lparr>status := CANCELLED, updatedAt := 5\<rparr>)
   \<and> bookings (snd (cancelBooking ''65b000000000000000000001'' world_completed))
       = [stay_feb\<lparr>status := CANCELLED, updatedAt := 5\<rparr>]
   \<and> fst (cancelBooking ''65b000000000000000000002'' world_completed) = Inl BookingNotFound
   \<and> fst (confirmBooking ''65b000000000000000000001'' world_completed)
       = Inl BookingNotFoundOrCannotBeConfirmed"
  using cancelBooking_any_status[of "''65b000000000000000000001''" world_completed]
    cancelBooking_any_status[of "''65b000000000000000000002''" world_completed]
  by (simp add: world_completed_def world0_def stay_feb_def)

section \<open>The request schema\<close>

lemma floor_eq_iff_Ints: "(rat_of_int \<lfloor>n\<rfloor> = n) = (n \<in> \<int>)"
  by (metis Ints_of_int floor_of_int Ints_cases)

text \<open>
  C10. A request whose \<open>numberOfGuests\<close> is a number above 10, below 1 or not an
  integer is refused by \<open>createBookingSchema\<close>, whatever its other fields and
  whatever rooms exist; \<open>POST /bookings\<close> then answers 400 and leaves the world as it
  was, so no room, of any capacity, is booked for more than 10 guests that way.
\<close>

theorem createBookingSchema_guest_bounds:
  assumes "body_numberOfGuests body = Some (JNumber n)" and "n > 10 \<or> n \<notin> \<int> \<or> n < 1"
  shows "createBookingSchema parseDate now body = None
     \<and> postBooking parseDate toISOString ownerValue user body w = (Inl RequestRejected, w)"
proof -
  have "numberOfGuestsSchema (body_numberOfGuests body) = None"
    using assms by (auto simp: numberOfGuestsSchema_def floor_eq_iff_Ints)
  then have "createBookingSchema parseDate now body = None" for now
    by (simp add: createBookingSchema_def split: option.splits)
  then show ?thesis by (simp add: postBooking_def)
qed


text \<open>
  Eleven guests for a room that holds twelve: the schema refuses the request, though
  \<open>validateBooking\<close> itself would accept it. Two and a half guests are refused too.
\<close>

theorem createBookingSchema_guest_bounds_witness:
  "body_numberOfGuests (body_of ''2024-03-01T00:00:00.000Z'' ''2024-03-04T00:00:00.000Z'' 11)
     = Some (JNumber 11)
   \<and> (11 :: rat) > 10
   \<and> createBookingSchema example_parse (feb 1)
        (body_of ''2024-03-01T00:00:00.000Z'' ''2024-03-04T00:00:00.000Z'' 11) = None
   \<and> fst (postBooking example_parse example_iso ''1-ownerA'' ''65c000000000000000000001''
            (body_of ''2024-03-01T00:00:00.000Z'' ''2024-03-04T00:00:00.000Z'' 11) world_big)
       = Inl RequestRejected
   \<and> isValid (validateBooking (candidate (march 1) (march 4) 11) world_big)
   \<and> createBookingSchema example_parse (feb 1)
        (body_of ''2024-03-01T00:00:00.000Z'' ''2024-03-04T00:00:00.000Z'' (5 / 2)) = None"
proof -
  have h1: "body_numberOfGuests (body_of ''2024-03-01T00:00:00.000Z'' ''2024-03-04T00:00:00.000Z'' 11)
     = Some (JNumber 11)" by (simp add: body_of_def)
  have h2: "(11 :: rat) > 10 \<or> (11 :: rat) \<notin> \<int> \<or> (11 :: rat) < 1" by simp
  have h3: "body_numberOfGuests (body_of ''2024-03-01T00:00:00.000Z'' ''2024-03-04T00:00:00.000Z'' (5 / 2))
     = Some (JNumber (5 / 2))" by (simp add: body_of_def)
  have h4: "(5 / 2 :: rat) > 10 \<or> (5 / 2 :: rat) \<notin> \<int> \<or> (5 / 2 :: rat) < 1" by simp
  have v: "isValid (validateBooking (candidate (march 1) (march 4) 11) world_big)"
    by (simp add: booking_eval world_big_def)
  show ?thesis
    using createBookingSchema_guest_bounds[OF h1 h2, of example_parse "feb 1" example_iso
        "''1-ownerA''" "''65c000000000000000000001''" world_big]
      createBookingSchema_guest_bounds[OF h3 h4, of example_parse "feb 1" example_iso
        "''1-ownerA''" "''65c000000000000000000001''" world_big]
      h1 v
    by simp
qed

section \<open>The booking validator\<close>

lemma conflict_matches:
  "matches (conflict_filter room ci co ex) b =
     (roomId b = room \<and> (status b = PENDING \<or> status b = CONFIRMED)
      \<and> checkInDate b < co \<and> checkOutDate b > ci
      \<and> (case ex of None \<Rightarrow> True | Some x \<Rightarrow> bookingId b \<noteq> x))"
  by (cases ex) (auto simp: conflict_filter_def)

lemma validateBooking_errors:
  "errors (validateBooking d w) =
     (if cb_checkInDate d \<ge> cb_checkOutDate d then [CheckInNotBeforeCheckOut] else [])
     @ (if cb_checkInDate d < clock w then [CheckInInThePast] else [])
     @ (if cb_numberOfGuests d \<le> 0 then [GuestsNotPositive] else [])
     @ (case findRoom (cb_roomId d) w of
          None \<Rightarrow> [RoomMissing]
        | Some room \<Rightarrow>
            (if \<not> isActive room then [RoomInactive] else [])
            @ (if cb_numberOfGuests d > maxOccupancy room
               then [GuestsExceedCapacity (maxOccupancy room)] else [])
            @ (if coll_find (conflict_filter (cb_roomId d) (cb_checkInDate d) (cb_checkOutDate d) None)
                    (bookings w) \<noteq> []
               then [DatesTaken] else []))"
  by (simp add: validateBooking_def push_if_def Let_def split: option.splits)

lemma validateBooking_isValid:
  "isValid (validateBooking d w) = (errors (validateBooking d w) = [])"
  by (simp add: validateBooking_def push_if_def Let_def split: option.splits)

lemma validateBooking_reads:
  "clock w' = clock w \<Longrightarrow> rooms w' = rooms w \<Longrightarrow> bookings w' = bookings w \<Longrightarrow>
   validateBooking d w' = validateBooking d w"
  by (simp add: validateBooking_def findRoom_def Let_def cong: option.case_cong)

lemma validateBooking_say [simp]: "validateBooking d (say l w) = validateBooking d w"
  by (rule validateBooking_reads) (simp_all add: say_def)

lemma section_blocked:
  "\<not> isValid (validateBooking d w) \<Longrightarrow>
   createBooking_section user d w =
     (Inl (ValidationFailed (errors (validateBooking d w))),
      say (LogCreatingBooking (cb_roomId d) (cb_checkInDate d) (cb_checkOutDate d)) w)"
  by (simp add: createBooking_section_def Let_def)

lemma schema_accepts:
  "createBookingSchema parseDate now body = Some d \<Longrightarrow>
     cb_checkInDate d < cb_checkOutDate d \<and> now < cb_checkInDate d
     \<and> 1 \<le> cb_numberOfGuests d \<and> cb_numberOfGuests d \<le> 10
     \<and> diffDays (cb_checkInDate d) (cb_checkOutDate d) \<le> 30"
  by (auto simp: createBookingSchema_def futureDateSchema_def numberOfGuestsSchema_def
      le_floor_iff floor_le_iff
      split: option.splits if_splits json.splits)


text \<open>
  A stay of 60 nights passes \<open>validateBooking\<close>: the validator has no rule on the length
  of the stay.
\<close>

theorem validator_has_no_night_limit:
  "isValid (validateBooking (candidate (march 1) (march 61) 2) world_feb)
   \<and> errors (validateBooking (candidate (march 1) (march 61) 2) world_feb) = []
   \<and> totalNights (march 1) (march 61) = 60"
  by (simp add: booking_eval)

lemma coll_find_nonempty:
  "(coll_find (conflict_filter room ci co None) docs \<noteq> []) =
     (\<exists>b\<in>set docs. roomId b = room \<and> (status b = PENDING \<or> status b = CONFIRMED)
        \<and> checkInDate b < co \<and> checkOutDate b > ci)"
  by (auto simp: coll_find_def filter_empty_conv conflict_matches)

text \<open>
  C7, amended. \<open>validateBooking\<close> checks \<open>checkIn < checkOut\<close>, \<open>checkIn \<ge> now\<close>
  and \<open>guests > 0\<close>, then looks the room up: a missing room adds its message and ends
  the validation; for a room that exists it checks that the room is active, that
  \<open>guests \<le> maxOccupancy\<close>, and that no active booking overlaps. Every failing check
  adds exactly one message, in this order, and the result is valid exactly when there
  is no message; when it is not valid, \<open>createBooking\<close> raises the messages and
  writes nothing. The length of the stay is not checked here: it is
  \<open>createBookingSchema\<close> that accepts a request only when the stay is at most 30 days
  (and the check-in is in the future, the check-out after it, and the guests between
  1 and 10).
\<close>

theorem validateBooking_rules:
  "errors (validateBooking d w) =
     (if cb_checkInDate d \<ge> cb_checkOutDate d then [CheckInNotBeforeCheckOut] else [])
     @ (if cb_checkInDate d < clock w then [CheckInInThePast] else [])
     @ (if cb_numberOfGuests d \<le> 0 then [GuestsNotPositive] else [])
     @ (case findRoom (cb_roomId d) w of
          None \<Rightarrow> [RoomMissing]
        | Some room \<Rightarrow>
            (if \<not> isActive room then [RoomInactive] else [])
            @ (if cb_numberOfGuests d > maxOccupancy room
               then [GuestsExceedCapacity (maxOccupancy room)] else [])
            @ (if coll_find (conflict_filter (cb_roomId d) (cb_checkInDate d) (cb_checkOutDate d) None)
                    (bookings w) \<noteq> []
               then [DatesTaken] else []))
   \<and> isValid (validateBooking d w) = (errors (validateBooking d w) = [])
   \<and> (\<not> isValid (validateBooking d w) \<longrightarrow>
        createBooking_section user d w =
          (Inl (ValidationFailed (errors (validateBooking d w))),
           say (LogCreatingBooking (cb_roomId d) (cb_checkInDate d) (cb_checkOutDate d)) w))
   \<and> (createBookingSchema parseDate now body = Some d \<longrightarrow>
        cb_checkInDate d < cb_checkOutDate d \<and> now < cb_checkInDate d
        \<and> 1 \<le> cb_numberOfGuests d \<and> cb_numberOfGuests d \<le> 10
        \<and> diffDays (cb_checkInDate d) (cb_checkOutDate d) \<le> 30)"
  using validateBooking_errors[of d w] validateBooking_isValid[of d w]
    section_blocked[of d w user] schema_accepts[of parseDate now body d]
  by blast

text \<open>
  Three rules fail at once and give three messages; the schema accepts a stay of three
  nights and refuses one of 60.
\<close>

theorem validateBooking_rules_witness:
  "errors (validateBooking (candidate (feb 5) (feb 3) 3) (world_feb\<lparr>clock := march 1\<rparr>)) =
     [CheckInNotBeforeCheckOut, CheckInInThePast, GuestsExceedCapacity 2]
   \<and> \<not> isValid (validateBooking (candidate (feb 5) (feb 3) 3) (world_feb\<lparr>clock := march 1\<rparr>))
   \<and> fst (createBooking_section ''65c000000000000000000001'' (candidate (feb 5) (feb 3) 3)
            (world_feb\<lparr>clock := march 1\<rparr>)) =
       Inl (ValidationFailed [CheckInNotBeforeCheckOut, CheckInInThePast, GuestsExceedCapacity 2])
   \<and> createBookingSchema example_parse (feb 1)
        (body_of ''2024-03-01T00:00:00.000Z'' ''2024-03-04T00:00:00.000Z'' 2)
      = Some (candidate (march 1) (march 4) 2)
   \<and> diffDays (march 1) (march 4) \<le> 30
   \<and> createBookingSchema example_parse (feb 1)
        (body_of ''2024-03-01T00:00:00.000Z'' ''2024-04-30T00:00:00.000Z'' 2) = None"
proof -
  have e: "errors (validateBooking (candidate (feb 5) (feb 3) 3) (world_feb\<lparr>clock := march 1\<rparr>)) =
     [CheckInNotBeforeCheckOut, CheckInInThePast, GuestsExceedCapacity 2]"
    by (simp add: booking_eval)
  have s1: "createBookingSchema example_parse (feb 1)
        (body_of ''2024-03-01T00:00:00.000Z'' ''2024-03-04T00:00:00.000Z'' 2)
      = Some (candidate (march 1) (march 4) 2)"
    by (simp add: schema_eval candidate_def)
  have s2: "createBookingSchema example_parse (feb 1)
        (body_of ''2024-03-01T00:00:00.000Z'' ''2024-04-30T00:00:00.000Z'' 2) = None"
    by (simp add: schema_eval)
  have c: "cb_checkInDate (candidate (march 1) (march 4) 2) = march 1"
    "cb_checkOutDate (candidate (march 1) (march 4) 2) = march 4"
    by (simp_all add: candidate_def)
  show ?thesis
    using validateBooking_rules[of "candidate (feb 5) (feb 3) 3" "world_feb\<lparr>clock := march 1\<rparr>"
        "''65c000000000000000000001''" example_parse "feb 1"
        "body_of ''2024-03-01T00:00:00.000Z'' ''2024-03-04T00:00:00.000Z'' 2"]
      validateBooking_rules[of "candidate (march 1) (march 4) 2" world_feb
        "''65c000000000000000000001''" example_parse "feb 1"
        "body_of ''2024-03-01T00:00:00.000Z'' ''2024-03-04T00:00:00.000Z'' 2"]
      e s1 s2 c
    by simp
qed

section \<open>The conflict check\<close>

lemma cache_read_bookings: "bookings (snd (cache_read r k w)) = bookings w"
  by (simp add: cache_read_def getRoomAvailability_def case_prod_beta snd_client_get
      world_updates split: sum.splits option.splits stored.splits)

lemma conflict_filter_plain:
  "matches (conflict_filter room ci co None) =
     (\<lambda>x. roomId x = room \<and> (status x = PENDING \<or> status x = CONFIRMED)
           \<and> checkInDate x < co \<and> checkOutDate x > ci)"
  by (rule ext) (simp add: conflict_matches)

lemma room_availability_hit:
  assumes "fst (cache_read r (toISOString (af_checkInDate f) @ ''_'' @ toISOString (af_checkOutDate f)) w)
             = Some v"
  shows "ra_isAvailable (fst (room_availability toISOString f r w)) = v"
    and "v \<Longrightarrow> ra_conflictingBookings (fst (room_availability toISOString f r w)) = []"
    and "\<not> v \<Longrightarrow> af_excludeBookingId f = None \<Longrightarrow>
         ra_conflictingBookings (fst (room_availability toISOString f r w)) =
           map bookingId
             (filter (\<lambda>x. roomId x = roomOid r \<and> (status x = PENDING \<or> status x = CONFIRMED)
                        \<and> checkInDate x < af_checkOutDate f \<and> checkOutDate x > af_checkInDate f)
                (bookings w))"
    and "snd (room_availability toISOString f r w)
          = snd (cache_read r (toISOString (af_checkInDate f) @ ''_'' @ toISOString (af_checkOutDate f)) w)"
proof -
  let ?k = "toISOString (af_checkInDate f) @ ''_'' @ toISOString (af_checkOutDate f)"
  obtain cached w1 where cr: "cache_read r ?k w = (cached, w1)" by (cases "cache_read r ?k w")
  with assms have cn: "cached = Some v" by simp
  from cr cache_read_bookings[of r ?k w] have b1: "bookings w1 = bookings w" by simp
  show "ra_isAvailable (fst (room_availability toISOString f r w)) = v"
    using cr cn by (simp add: room_availability_def Let_def)
  show "v \<Longrightarrow> ra_conflictingBookings (fst (room_availability toISOString f r w)) = []"
    using cr cn by (simp add: room_availability_def Let_def)
  show "\<not> v \<Longrightarrow> af_excludeBookingId f = None \<Longrightarrow>
         ra_conflictingBookings (fst (room_availability toISOString f r w)) =
           map bookingId
             (filter (\<lambda>x. roomId x = roomOid r \<and> (status x = PENDING \<or> status x = CONFIRMED)
                        \<and> checkInDate x < af_checkOutDate f \<and> checkOutDate x > af_checkInDate f)
                (bookings w))"
    using cr cn b1 by (simp add: room_availability_def Let_def coll_find_def conflict_filter_plain)
  show "snd (room_availability toISOString f r w) = snd (cache_read r ?k w)"
    using cr cn by (simp add: room_availability_def Let_def)
qed

lemma room_availability_miss:
  assumes "af_excludeBookingId f = None"
    and "fst (cache_read r (toISOString (af_checkInDate f) @ ''_'' @ toISOString (af_checkOutDate f)) w)
             = None"
  shows "ra_isAvailable (fst (room_availability toISOString f r w)) =
          (\<not> (\<exists>x\<in>set (bookings w). roomId x = roomOid r
                \<and> (status x = PENDING \<or> status x = CONFIRMED)
                \<and> checkInDate x < af_checkOutDate f \<and> checkOutDate x > af_checkInDate f))
        \<and> ra_conflictingBookings (fst (room_availability toISOString f r w)) =
            map bookingId
              (filter (\<lambda>x. roomId x = roomOid r \<and> (status x = PENDING \<or> status x = CONFIRMED)
                         \<and> checkInDate x < af_checkOutDate f \<and> checkOutDate x > af_checkInDate f)
                 (bookings w))"
proof -
  let ?k = "toISOString (af_checkInDate f) @ ''_'' @ toISOString (af_checkOutDate f)"
  obtain cached w1 where cr: "cache_read r ?k w = (cached, w1)" by (cases "cache_read r ?k w")
  with assms have cn: "cached = None" by simp
  from cr cache_read_bookings[of r ?k w] have b1: "bookings w1 = bookings w" by simp
  show ?thesis
    using assms cr cn b1
    by (simp add: room_availability_def Let_def coll_find_def conflict_filter_plain filter_empty_conv)
qed

text \<open>
  An active stay [Feb 1, Feb 5) overlaps the candidate [Feb 3, Feb 6), and no conflict is
  reported: \<open>validateBooking\<close> does not reach the conflict query when the room is
  missing, and the availability query answers from a cached verdict.
\<close>

theorem conflict_check_misses:
  "stay_feb \<in> set (bookings world_no_room)
   \<and> roomId stay_feb = cb_roomId (candidate (feb 3) (feb 6) 2)
   \<and> status stay_feb = PENDING
   \<and> checkInDate stay_feb < feb 6 \<and> checkOutDate stay_feb > feb 3
   \<and> DatesTaken \<notin> set (errors (validateBooking (candidate (feb 3) (feb 6) 2) world_no_room))
   \<and> stay_feb \<in> set (bookings world_stale)
   \<and> ra_isAvailable (fst (room_availability example_iso (query (feb 3) (feb 6)) room1 world_stale))
   \<and> ra_conflictingBookings
        (fst (room_availability example_iso (query (feb 3) (feb 6)) room1 world_stale)) = []"
  by (simp add: booking_eval)


text \<open>
  C2, amended. A booking matches the conflict query for a room and a candidate interval
  exactly when it is a booking of that room, its status is pending or confirmed, it
  checks in before the candidate checks out and checks out after the candidate checks
  in. When the room exists, \<open>validateBooking\<close> reports the conflict exactly when
  such a booking exists; when the room does not exist, it reports that the room was not
  found, is not valid, and does not report the conflict. On a cache miss (and with no
  booking excluded), \<open>checkRoomAvailability\<close> answers "not available" for a room
  exactly when such a booking exists, and lists the bookings that match. On a cache hit
  it answers the cached verdict: with no booking listed when the verdict is "available",
  and (with no booking excluded) with the bookings that match listed when it is "not
  available".
\<close>

theorem conflict_check_half_open:
  "matches (conflict_filter room ci co None) b =
     (roomId b = room \<and> (status b = PENDING \<or> status b = CONFIRMED)
      \<and> checkInDate b < co \<and> checkOutDate b > ci)
   \<and> (findRoom (cb_roomId d) w \<noteq> None \<longrightarrow>
        (DatesTaken \<in> set (errors (validateBooking d w))) =
        (\<exists>x\<in>set (bookings w). roomId x = cb_roomId d
            \<and> (status x = PENDING \<or> status x = CONFIRMED)
            \<and> checkInDate x < cb_checkOutDate d \<and> checkOutDate x > cb_checkInDate d))
   \<and> (findRoom (cb_roomId d) w = None \<longrightarrow>
        RoomMissing \<in> set (errors (validateBooking d w))
        \<and> DatesTaken \<notin> set (errors (validateBooking d w))
        \<and> \<not> isValid (validateBooking d w))
   \<and> (af_excludeBookingId f = None \<and>
       fst (cache_read r (toISOString (af_checkInDate f) @ ''_'' @ toISOString (af_checkOutDate f)) w)
         = None \<longrightarrow>
        ra_isAvailable (fst (room_availability toISOString f r w)) =
          (\<not> (\<exists>x\<in>set (bookings w). roomId x = roomOid r
                \<and> (status x = PENDING \<or> status x = CONFIRMED)
                \<and> checkInDate x < af_checkOutDate f \<and> checkOutDate x > af_checkInDate f))
        \<and> ra_conflictingBookings (fst (room_availability toISOString f r w)) =
            map bookingId
              (filter (\<lambda>x. roomId x = roomOid r \<and> (status x = PENDING \<or> status x = CONFIRMED)
                         \<and> checkInDate x < af_checkOutDate f \<and> checkOutDate x > af_checkInDate f)
                 (bookings w)))
   \<and> (fst (cache_read r (toISOString (af_checkInDate f) @ ''_'' @ toISOString (af_checkOutDate f)) w)
         = Some v \<longrightarrow>
        ra_isAvailable (fst (room_availability toISOString f r w)) = v
        \<and> (v \<longrightarrow> ra_conflictingBookings (fst (room_availability toISOString f r w)) = [])
        \<and> (\<not> v \<and> af_excludeBookingId f = None \<longrightarrow>
             ra_conflictingBookings (fst (room_availability toISOString f r w)) =
               map bookingId
                 (filter (\<lambda>x. roomId x = roomOid r \<and> (status x = PENDING \<or> status x = CONFIRMED)
                            \<and> checkInDate x < af_checkOutDate f \<and> checkOutDate x > af_checkInDate f)
                    (bookings w))))"
proof -
  have a: "matches (conflict_filter room ci co None) b =
     (roomId b = room \<and> (status b = PENDING \<or> status b = CONFIRMED)
      \<and> checkInDate b < co \<and> checkOutDate b > ci)"
    by (simp add: conflict_matches)
  have b: "findRoom (cb_roomId d) w \<noteq> None \<Longrightarrow>
        (DatesTaken \<in> set (errors (validateBooking d w))) =
        (\<exists>x\<in>set (bookings w). roomId x = cb_roomId d
            \<and> (status x = PENDING \<or> status x = CONFIRMED)
            \<and> checkInDate x < cb_checkOutDate d \<and> checkOutDate x > cb_checkInDate d)"
    by (auto simp: validateBooking_errors coll_find_nonempty)
  have c: "findRoom (cb_roomId d) w = None \<Longrightarrow>
        RoomMissing \<in> set (errors (validateBooking d w))
        \<and> DatesTaken \<notin> set (errors (validateBooking d w))
        \<and> \<not> isValid (validateBooking d w)"
    by (simp add: validateBooking_errors validateBooking_isValid)
  note m = room_availability_miss[of f r toISOString w]
  note h = room_availability_hit(1,2,3)[of r toISOString f w v]
  from a b c m h show ?thesis by blast
qed


text \<open>
  With the pending stay [Feb 1, Feb 5): the candidate [Feb 3, Feb 6) conflicts, the
  candidate [Feb 5, Feb 8) does not. Without the room, the one message is that the room
  was not found. A cached "available" for [Feb 3, Feb 6) is answered although the stay
  overlaps; a cached "not available" is answered although the stay has been cancelled.
\<close>

theorem conflict_check_half_open_witness:
  "findRoom (cb_roomId (candidate (feb 3) (feb 6) 2)) world_feb \<noteq> None
   \<and> DatesTaken \<in> set (errors (validateBooking (candidate (feb 3) (feb 6) 2) world_feb))
   \<and> DatesTaken \<notin> set (errors (validateBooking (candidate (feb 5) (feb 8) 2) world_feb))
   \<and> findRoom (cb_roomId (candidate (feb 3) (feb 6) 2)) world_no_room = None
   \<and> errors (validateBooking (candidate (feb 3) (feb 6) 2) world_no_room) = [RoomMissing]
   \<and> fst (cache_read room1 (example_iso (feb 3) @ ''_'' @ example_iso (feb 6)) world_feb) = None
   \<and> \<not> ra_isAvailable (fst (room_availability example_iso (query (feb 3) (feb 6)) room1 world_feb))
   \<and> ra_conflictingBookings (fst (room_availability example_iso (query (feb 3) (feb 6)) room1 world_feb))
       = [bookingId stay_feb]
   \<and> ra_isAvailable (fst (room_availability example_iso (query (feb 5) (feb 8)) room1 world_feb))
   \<and> fst (cache_read room1 (example_iso (feb 3) @ ''_'' @ example_iso (feb 6)) world_stale)
       = Some True
   \<and> ra_isAvailable (fst (room_availability example_iso (query (feb 3) (feb 6)) room1 world_stale))
   \<and> fst (cache_read room1 (example_iso (feb 3) @ ''_'' @ example_iso (feb 6)) world_stale_taken)
       = Some False
   \<and> \<not> ra_isAvailable
         (fst (room_availability example_iso (query (feb 3) (feb 6)) room1 world_stale_taken))
   \<and> ra_conflictingBookings
        (fst (room_availability example_iso (query (feb 3) (feb 6)) room1 world_stale_taken)) = []"
  using conflict_check_half_open[where room = "''65a000000000000000000001''" and ci = "feb 3"
      and co = "feb 6" and b = stay_feb and d = "candidate (feb 3) (feb 6) 2" and w = world_feb
      and f = "query (feb 3) (feb 6)" and r = room1 and toISOString = example_iso and v = True]
    conflict_check_half_open[where room = "''65a000000000000000000001''" and ci = "feb 5"
      and co = "feb 8" and b = stay_feb and d = "candidate (feb 5) (feb 8) 2" and w = world_feb
      and f = "query (feb 5) (feb 8)" and r = room1 and toISOString = example_iso and v = True]
    conflict_check_half_open[where room = "''65a000000000000000000001''" and ci = "feb 3"
      and co = "feb 6" and b = stay_feb and d = "candidate (feb 3) (feb 6) 2"
      and w = world_no_room
      and f = "query (feb 3) (feb 6)" and r = room1 and toISOString = example_iso and v = True]
    conflict_check_half_open[where room = "''65a000000000000000000001''" and ci = "feb 3"
      and co = "feb 6" and b = stay_feb and d = "candidate (feb 3) (feb 6) 2" and w = world_stale
      and f = "query (feb 3) (feb 6)" and r = room1 and toISOString = example_iso and v = True]
    conflict_check_half_open[where room = "''65a000000000000000000001''" and ci = "feb 3"
      and co = "feb 6" and b = stay_feb and d = "candidate (feb 3) (feb 6) 2"
      and w = world_stale_taken
      and f = "query (feb 3) (feb 6)" and r = room1 and toISOString = example_iso and v = False]
  by (simp add: booking_eval world_stale_taken_def)

section \<open>Invalidating the availability cache\<close>

lemma glob_star_absorb: "glob ps t \<Longrightarrow> glob (CHR ''*'' # ps) (x @ t)"
proof (induction x)
  case Nil
  then show ?case by (cases t) auto
next
  case (Cons a x)
  then show ?case by simp
qed

lemma glob_star_all: "glob ''*'' s"
  using glob_star_absorb[of "[]" "[]" s] by simp

lemma glob_prefix: "glob q s \<Longrightarrow> glob (p @ q) (p @ s)"
proof (induction p)
  case Nil
  then show ?case by simp
next
  case (Cons c p)
  then have ih: "glob (p @ q) (p @ s)" by simp
  show ?case
  proof (cases "c = CHR ''*''")
    case True
    from glob_star_absorb[OF ih, of "[c]"] True show ?thesis by simp
  next
    case False
    with ih show ?thesis by simp
  qed
qed

lemma redis_pattern_matches:
  "glob (''room:availability:'' @ room @ '':*'') (availability_key room dateRange)"
proof -
  have "glob ((''room:availability:'' @ room @ '':'') @ ''*'')
             ((''room:availability:'' @ room @ '':'') @ dateRange)"
    by (rule glob_prefix) (rule glob_star_all)
  then show ?thesis by (simp add: availability_key_def)
qed

lemma service_pattern_matches:
  "glob (''room:availability:*'' @ room @ ''*'') (availability_key room dateRange)"
proof -
  have "glob (room @ ''*'') (room @ ('':'' @ dateRange))"
    by (rule glob_prefix) (rule glob_star_all)
  then have "glob (CHR ''*'' # (room @ ''*'')) ([] @ (room @ ('':'' @ dateRange)))"
    by (rule glob_star_absorb)
  then have "glob (''room:availability:'' @ (CHR ''*'' # (room @ ''*'')))
                  (''room:availability:'' @ (room @ ('':'' @ dateRange)))"
    by (intro glob_prefix) simp
  then show ?thesis by (simp add: availability_key_def)
qed

lemma map_of_filter_keys:
  "map_of (filter (\<lambda>(k, v). k \<notin> S) st) k = (if k \<in> S then None else map_of st k)"
  by (induction st) auto

lemma live_at_filter_keys:
  "live_at (filter (\<lambda>(k, v). k \<notin> S) st) now k = (if k \<in> S then None else live_at st now k)"
  by (simp add: live_at_def map_of_filter_keys)

lemma live_at_Some_key: "live_at st now k \<noteq> None \<Longrightarrow> k \<in> fst ` set st"
  by (auto simp: live_at_def image_iff split: option.splits dest!: map_of_SomeD) force

lemma scan_keys:
  "set (filter (\<lambda>k. live_at st now k \<noteq> None \<and> glob p k) (remdups (map fst st))) =
     {k. live_at st now k \<noteq> None \<and> glob p k}"
  using live_at_Some_key[of st now] by auto

lemma redis_invalidate_live:
  assumes "isConnectionActive w" and "faults w = []"
  shows "live (snd (redis_invalidateRoomCache room w)) k =
           (if glob (''room:availability:'' @ room @ '':*'') k then None else live w k)"
    and "faults (snd (redis_invalidateRoomCache room w)) = []"
    and "clock (snd (redis_invalidateRoomCache room w)) = clock w"
proof -
  define p where "p = ''room:availability:'' @ room @ '':*''"
  define keys where
    "keys = filter (\<lambda>k. live_at (kv w) (clock w) k \<noteq> None \<and> glob p k) (remdups (map fst (kv w)))"
  have conn: "getClient w = Inr ()" using assms(1) by (simp add: isConnectionActive_def getClient_def)
  have nf: "\<not> command_fails w" using assms(2) by (simp add: command_fails_def)
  have sc: "client_scan p w = (Inr keys, consume_fault w)"
    using nf by (simp add: client_scan_def Let_def live_def consume_fault_def keys_def)
  have cf: "faults (consume_fault w) = []" "clock (consume_fault w) = clock w"
    "kv (consume_fault w) = kv w"
    using assms(2) by (simp_all add: consume_fault_def)
  have nf2: "\<not> command_fails (consume_fault w)" using cf by (simp add: command_fails_def)
  have ks: "set keys = {k. live_at (kv w) (clock w) k \<noteq> None \<and> glob p k}"
    unfolding keys_def by (rule scan_keys)
  have whole: "snd (redis_invalidateRoomCache room w) =
      (if keys = [] then consume_fault w
       else say (LogInvalidated (length keys) room)
              ((consume_fault (consume_fault w))
                 \<lparr>kv := filter (\<lambda>(k, v). k \<notin> set keys) (kv (consume_fault (consume_fault w)))\<rparr>))"
    unfolding redis_invalidateRoomCache_def redis_invalidate_try_def p_def[symmetric]
    using conn sc nf2 by (simp add: client_del_def Let_def)
  show "live (snd (redis_invalidateRoomCache room w)) k =
           (if glob (''room:availability:'' @ room @ '':*'') k then None else live w k)"
  proof (cases "keys = []")
    case True
    with ks have "\<not> (live_at (kv w) (clock w) k \<noteq> None \<and> glob p k)" by auto
    then show ?thesis
      unfolding whole p_def[symmetric] using True
      by (auto simp: live_def consume_fault_def)
  next
    case False
    have "live_at (filter (\<lambda>(k, v). k \<notin> set keys) (kv w)) (clock w) k =
            (if k \<in> set keys then None else live_at (kv w) (clock w) k)"
      by (rule live_at_filter_keys)
    also have "\<dots> = (if glob p k then None else live_at (kv w) (clock w) k)"
      using ks by auto
    finally show ?thesis
      unfolding whole p_def[symmetric] using False
      by (simp add: live_def say_def consume_fault_def)
  qed
  show "faults (snd (redis_invalidateRoomCache room w)) = []"
    unfolding whole using cf by (simp add: say_def consume_fault_def)
  show "clock (snd (redis_invalidateRoomCache room w)) = clock w"
    unfolding whole using cf by (simp add: say_def consume_fault_def)
qed


lemma service_invalidate_live:
  assumes "isConnectionActive w" and "faults w = []"
  shows "live (snd (service_invalidateRoomCache room w)) k =
           (if glob (''room:availability:*'' @ room @ ''*'') k
               \<or> glob ''room:availability:search:*'' k
            then None else live w k)"
    and "faults (snd (service_invalidateRoomCache room w)) = []"
    and "clock (snd (service_invalidateRoomCache room w)) = clock w"
proof -
  define p1 where "p1 = ''room:availability:*'' @ room @ ''*''"
  define p2 where "p2 = ''room:availability:search:*''"
  define keys1 where
    "keys1 = filter (\<lambda>k. live_at (kv w) (clock w) k \<noteq> None \<and> glob p1 k) (remdups (map fst (kv w)))"
  define keys2 where
    "keys2 = filter (\<lambda>k. live_at (kv w) (clock w) k \<noteq> None \<and> glob p2 k) (remdups (map fst (kv w)))"
  define w1 where "w1 = consume_fault w"
  define w2 where "w2 = consume_fault w1"
  have conn: "getClient w = Inr ()" using assms(1) by (simp add: isConnectionActive_def getClient_def)
  have cf: "faults w1 = []" "clock w1 = clock w" "kv w1 = kv w"
    "faults w2 = []" "clock w2 = clock w" "kv w2 = kv w"
    using assms(2) by (simp_all add: consume_fault_def w1_def w2_def)
  have nf: "\<not> command_fails w" "\<not> command_fails w1" "\<not> command_fails w2"
    using assms(2) cf by (simp_all add: command_fails_def)
  have sc1: "client_scan p1 w = (Inr keys1, w1)"
    using nf by (simp add: client_scan_def Let_def live_def consume_fault_def keys1_def w1_def)
  have sc2: "client_scan p2 w1 = (Inr keys2, w2)"
    using nf cf by (simp add: client_scan_def Let_def live_def keys2_def w2_def[symmetric])
  define keys where "keys = keys1 @ keys2"
  have ks: "set keys =
      {k. live_at (kv w) (clock w) k \<noteq> None \<and> (glob p1 k \<or> glob p2 k)}"
    unfolding keys_def keys1_def keys2_def set_append scan_keys by auto
  have whole: "snd (service_invalidateRoomCache room w) =
      (if keys = [] then w2
       else say (LogInvalidated (length keys) room)
              ((consume_fault w2)
                 \<lparr>kv := filter (\<lambda>(k, v). k \<notin> set keys) (kv (consume_fault w2))\<rparr>))"
    unfolding service_invalidateRoomCache_def service_invalidate_try_def
      p1_def[symmetric] p2_def[symmetric] keys_def
    using conn sc1 sc2 nf assms(1) by (simp add: client_del_def Let_def)
  have cf3: "kv (consume_fault w2) = kv w" "clock (consume_fault w2) = clock w"
    "faults (consume_fault w2) = []"
    using cf by (simp_all add: consume_fault_def)
  show "live (snd (service_invalidateRoomCache room w)) k =
           (if glob (''room:availability:*'' @ room @ ''*'') k
               \<or> glob ''room:availability:search:*'' k
            then None else live w k)"
  proof (cases "keys = []")
    case True
    with ks have "\<not> (live_at (kv w) (clock w) k \<noteq> None \<and> (glob p1 k \<or> glob p2 k))"
      by auto
    then show ?thesis
      unfolding whole p1_def[symmetric] p2_def[symmetric] using True cf
      by (auto simp: live_def)
  next
    case False
    have "live_at (filter (\<lambda>(k, v). k \<notin> set keys) (kv w)) (clock w) k =
            (if k \<in> set keys then None else live_at (kv w) (clock w) k)"
      by (rule live_at_filter_keys)
    also have "\<dots> = (if glob p1 k \<or> glob p2 k then None else live_at (kv w) (clock w) k)"
      unfolding ks by auto
    finally show ?thesis
      unfolding whole p1_def[symmetric] p2_def[symmetric] using False cf3
      by (simp add: live_def say_def)
  qed
  show "faults (snd (service_invalidateRoomCache room w)) = []"
    unfolding whole using cf cf3 by (simp add: say_def)
  show "clock (snd (service_invalidateRoomCache room w)) = clock w"
    unfolding whole using cf cf3 by (simp add: say_def)
qed

lemma get_after_absent:
  assumes "isConnected w" and "faults w = []" and "live w (availability_key room dateRange) = None"
  shows "fst (getRoomAvailability room dateRange w) = Inr None"
proof -
  have "\<not> command_fails w" using assms(2) by (simp add: command_fails_def)
  moreover have "live (consume_fault w) (availability_key room dateRange) = None"
    using assms(3) by (simp add: live_def consume_fault_def)
  ultimately show ?thesis
    using assms(1) by (simp add: getRoomAvailability_def getClient_def client_get_def Let_def)
qed


text \<open>
  After \<open>RedisConnection.invalidateRoomCache\<close>, the one \<open>createBooking\<close> calls, an
  entry of the search namespace is still there; and when the store rejects the scan,
  the room's own entry is still there and still read.
\<close>

theorem invalidate_leaves_entries:
  "live (snd (redis_invalidateRoomCache ''65a000000000000000000001'' world_cached))
      ''room:availability:search:all'' = Some (AvailabilityJson True 0)
   \<and> fst (getRoomAvailability ''65a000000000000000000001''
            (''2024-02-03T00:00:00.000Z'' @ ''_'' @ ''2024-02-06T00:00:00.000Z'')
            (snd (redis_invalidateRoomCache ''65a000000000000000000001''
                    (world_cached\<lparr>faults := [True]\<rparr>)))) = Inr (Some True)"
  by (simp add: cache_eval)

text \<open>
  C8, amended. With the connection active and no command rejected by the store, both
  invalidations remove every key that matches the room's pattern, which every key
  written by \<open>setRoomAvailability\<close> for the room does: afterwards
  \<open>getRoomAvailability\<close> finds nothing for the room, whatever the date range.
  \<open>BookingService.invalidateRoomCache\<close> (called when a booking is cancelled or
  confirmed) removes exactly the keys that match \<open>room:availability:*<room>*\<close> or
  \<open>room:availability:search:*\<close>.
\<close>

theorem invalidate_removes_room_entries:
  assumes "isConnectionActive w" and "faults w = []"
  shows "(glob (''room:availability:'' @ room @ '':*'') k \<longrightarrow>
            live (snd (redis_invalidateRoomCache room w)) k = None)
     \<and> live (snd (service_invalidateRoomCache room w)) k =
           (if glob (''room:availability:*'' @ room @ ''*'') k
               \<or> glob ''room:availability:search:*'' k
            then None else live w k)
     \<and> glob (''room:availability:'' @ room @ '':*'') (availability_key room dateRange)
     \<and> glob (''room:availability:*'' @ room @ ''*'') (availability_key room dateRange)
     \<and> fst (getRoomAvailability room dateRange (snd (redis_invalidateRoomCache room w))) = Inr None
     \<and> fst (getRoomAvailability room dateRange (snd (service_invalidateRoomCache room w))) = Inr None"
proof -
  have conn: "isConnected w" using assms(1) by (simp add: isConnectionActive_def)
  have c1: "isConnected (snd (redis_invalidateRoomCache room w))"
    using conn
    by (simp add: redis_invalidateRoomCache_def redis_invalidate_try_def case_prod_beta
        getClient_def snd_client_scan client_del_def Let_def world_updates split: sum.splits)
  have c2: "isConnected (snd (service_invalidateRoomCache room w))"
    using conn
    by (simp add: service_invalidateRoomCache_def service_invalidate_try_def case_prod_beta
        getClient_def snd_client_scan client_del_def Let_def world_updates split: sum.splits)
  have l1: "live (snd (redis_invalidateRoomCache room w)) (availability_key room dateRange) = None"
    using redis_invalidate_live(1)[OF assms] redis_pattern_matches by simp
  have l2: "live (snd (service_invalidateRoomCache room w)) (availability_key room dateRange) = None"
    using service_invalidate_live(1)[OF assms] service_pattern_matches by simp
  show ?thesis
    using redis_invalidate_live(1)[OF assms, of room k] service_invalidate_live(1)[OF assms, of room k]
      redis_pattern_matches[of room dateRange] service_pattern_matches[of room dateRange]
      get_after_absent[OF c1 redis_invalidate_live(2)[OF assms] l1]
      get_after_absent[OF c2 service_invalidate_live(2)[OF assms] l2]
    by simp
qed

theorem invalidate_removes_room_entries_witness:
  "isConnectionActive world_cached \<and> faults world_cached = []
   \<and> fst (getRoomAvailability ''65a000000000000000000001''
            (''2024-02-03T00:00:00.000Z'' @ ''_'' @ ''2024-02-06T00:00:00.000Z'') world_cached)
       = Inr (Some True)
   \<and> fst (getRoomAvailability ''65a000000000000000000001''
            (''2024-02-03T00:00:00.000Z'' @ ''_'' @ ''2024-02-06T00:00:00.000Z'')
            (snd (redis_invalidateRoomCache ''65a000000000000000000001'' world_cached)))
       = Inr None
   \<and> fst (getRoomAvailability ''65a000000000000000000001''
            (''2024-02-03T00:00:00.000Z'' @ ''_'' @ ''2024-02-06T00:00:00.000Z'')
            (snd (service_invalidateRoomCache ''65a000000000000000000001'' world_cached)))
       = Inr None
   \<and> live (snd (service_invalidateRoomCache ''65a000000000000000000001'' world_cached))
        ''room:availability:search:all'' = None"
proof -
  have h1: "isConnectionActive world_cached" by (simp add: cache_eval)
  have h2: "faults world_cached = []" by (simp add: cache_eval)
  have g: "fst (getRoomAvailability ''65a000000000000000000001''
            (''2024-02-03T00:00:00.000Z'' @ ''_'' @ ''2024-02-06T00:00:00.000Z'') world_cached)
       = Inr (Some True)"
    by (simp add: cache_eval)
  have s: "glob ''room:availability:search:*'' ''room:availability:search:all''" by simp
  from invalidate_removes_room_entries[OF h1 h2, of "''65a000000000000000000001''"
      "''room:availability:search:all''"
      "''2024-02-03T00:00:00.000Z'' @ ''_'' @ ''2024-02-06T00:00:00.000Z''"] s h1 h2 g
  show ?thesis by simp
qed

section \<open>Creating a booking\<close>



lemma release_frame:
  "bookings (snd (release lk w)) = bookings w \<and> clock (snd (release lk w)) = clock w"
  by (simp add: release_def release_try_def client_eval_release_def release_script_def
      case_prod_beta Let_def world_updates getClient_def split: sum.splits)


lemma bookings_redis_invalidate [simp]:
  "bookings (snd (redis_invalidateRoomCache room w)) = bookings w"
  by (simp add: redis_invalidateRoomCache_def redis_invalidate_try_def case_prod_beta
      snd_client_scan Let_def world_updates split: sum.splits)

lemma bookings_say [simp]: "bookings (say l w) = bookings w"
  by (simp add: say_def)

lemma findRoom_say [simp]: "findRoom r (say l w) = findRoom r w"
  by (simp add: findRoom_def say_def)






section \<open>Two calls at once: one of them books\<close>

lemma createBooking_section_split:
  "createBooking_section user d w =
     (case section_validate d w of
        (Inl e, w1) \<Rightarrow> (Inl e, w1)
      | (Inr u, w1) \<Rightarrow> section_persist user d w1)"
  by (simp add: createBooking_section_def section_validate_def section_persist_def Let_def)

lemma client_set_free:
  assumes "faults w = []" and "0 < ex" and "live w K = None"
  shows "client_set_NX_EX K v ex w =
           (Inr (Some ''OK''),
            did (SetNX K v ex OK)
              ((consume_fault w)\<lparr>kv := AList.update K (Text v, clock w + ex * 1000) (kv w)\<rparr>))"
  using assms
  by (simp add: client_set_NX_EX_def Let_def command_fails_def) (simp add: consume_fault_def)

lemma client_set_busy:
  assumes "faults w = []" and "0 < ex" and "live w K = Some x"
  shows "client_set_NX_EX K v ex w = (Inr None, did (SetNX K v ex Nil) (consume_fault w))"
  using assms
  by (simp add: client_set_NX_EX_def Let_def command_fails_def)

lemma steady_simple [simp]:
  "steady w0 (say l w) = steady w0 w"
  "steady w0 (did e w) = steady w0 w"
  by (simp_all add: steady_def say_def did_def)

lemma steady_consume: "steady w0 w \<Longrightarrow> steady w0 (consume_fault w)"
  by (simp add: steady_def consume_fault_def)

lemma held_simple [simp]:
  "held_by K v w0 (say l w) = held_by K v w0 w"
  "held_by K v w0 (did e w) = held_by K v w0 w"
  "held_by K v w0 (consume_fault w) = held_by K v w0 w"
  "held_by K v w0 (sleep ms w) = held_by K v w0 w"
  by (simp_all add: held_by_def say_def did_def consume_fault_def sleep_def)

lemma bookings_simple [simp]:
  "bookings (did e w) = bookings w"
  "bookings (consume_fault w) = bookings w"
  "bookings (sleep ms w) = bookings w"
  by (simp_all add: did_def consume_fault_def sleep_def)

lemma clock_simple [simp]:
  "clock (say l w) = clock w"
  "clock (did e w) = clock w"
  "clock (consume_fault w) = clock w"
  by (simp_all add: say_def did_def consume_fault_def)

lemma held_live:
  "held_by K v w0 w \<Longrightarrow> clock w < clock w0 + 60000 \<Longrightarrow> live w K = Some (Text v)"
  by (auto simp: held_by_def live_def live_at_def)

text \<open>A waiting call takes a turn while the other holds the lock.\<close>

lemma waiting_turn_held:
  assumes lk: "booking_lock lk" and st: "steady w0 w" and w: "waiting (lockKey lk) sy"
    and h: "live w (lockKey lk) = Some x" and s: "step_call \<lparr>c_user = u, c_data = d, c_lock = lk\<rparr> sy w = (sy', w')"
  shows "waiting (lockKey lk) sy' \<and> steady w0 w' \<and> bookings w' = bookings w \<and> kv w' = kv w
     \<and> clock w \<le> clock w' \<and> clock w' \<le> clock w + 200 * (used sy' - used sy)"
proof -
  have p: "ttl lk = 60" "retryDelay lk = 200" "maxRetries lk = 5" using lk by (simp_all add: booking_lock_def)
  have f: "faults w = []" "isConnected w" "isReady w" using st by (simp_all add: steady_def)
  have busy: "client_set_NX_EX (lockKey lk) (lockValue lk) 60 w =
      (Inr None, did (SetNX (lockKey lk) (lockValue lk) 60 Nil) (consume_fault w))"
    by (rule client_set_busy[OF f(1) _ h]) simp
  from w consider "sy = Start" | k where "sy = Attempt k" "1 \<le> k" "k \<le> 6"
    | "sy = Finished (Inl (FailedToAcquireLock (lockKey lk)))"
    by (auto simp: waiting_def)
  then show ?thesis
  proof cases
    case 1
    then show ?thesis
      using s busy p f st
      by (auto simp: step_call_def attempt_step_def isConnectionActive_def getClient_def
          waiting_def used_def steady_def sleep_def say_def did_def consume_fault_def)
  next
    case 2
    then show ?thesis
      using s busy p f st
      by (auto simp: step_call_def attempt_step_def
          waiting_def used_def steady_def sleep_def say_def did_def consume_fault_def
          split: if_splits)
  next
    case 3
    then show ?thesis
      using s st by (auto simp: step_call_def waiting_def used_def)
  qed
qed

lemma live_after_set:
  "live (did ev ((consume_fault w)\<lparr>kv := AList.update K (Text v, e) (kv w)\<rparr>)) K
     = (if clock w < e then Some (Text v) else None)"
  by (simp add: live_def live_at_def did_def consume_fault_def update_conv')

text \<open>A waiting call takes a turn while the key is free.\<close>

lemma waiting_turn_free:
  assumes lk: "booking_lock lk" and st: "steady w0 w" and w: "waiting (lockKey lk) sy"
    and h: "live w (lockKey lk) = None"
    and s: "step_call \<lparr>c_user = u, c_data = d, c_lock = lk\<rparr> sy w = (sy', w')"
  shows "steady w0 w' \<and> bookings w' = bookings w \<and> clock w' = clock w \<and> used sy \<le> used sy'
     \<and> (sy = Start \<longrightarrow> sy' = Validating)
     \<and> ((sy' = Validating \<and> held_by (lockKey lk) (lockValue lk) w0 w')
         \<or> (waiting (lockKey lk) sy' \<and> live w' (lockKey lk) = None))"
proof -
  have p: "ttl lk = 60" "retryDelay lk = 200" "maxRetries lk = 5" using lk by (simp_all add: booking_lock_def)
  have f: "faults w = []" "isConnected w" "isReady w" "clock w0 \<le> clock w" "rooms w = rooms w0"
    using st by (simp_all add: steady_def)
  define w1 where "w1 = did (SetNX (lockKey lk) (lockValue lk) 60 OK)
              ((consume_fault w)\<lparr>kv := AList.update (lockKey lk) (Text (lockValue lk), clock w + 60 * 1000) (kv w)\<rparr>)"
  have free: "client_set_NX_EX (lockKey lk) (lockValue lk) 60 w = (Inr (Some ''OK''), w1)"
    unfolding w1_def by (rule client_set_free[OF f(1) _ h]) simp
  have w1: "steady w0 w1" "bookings w1 = bookings w" "clock w1 = clock w"
    "held_by (lockKey lk) (lockValue lk) w0 w1"
    using f by (simp_all add: w1_def steady_def did_def consume_fault_def held_by_def update_conv')
  have six: "k \<le> 5 \<or> k = 6" if "k \<le> 6" for k :: int using that by arith
  from w consider "sy = Start" | k where "sy = Attempt k" "1 \<le> k" "k \<le> 5"
    | "sy = Attempt 6" | "sy = Finished (Inl (FailedToAcquireLock (lockKey lk)))"
    unfolding waiting_def using six by blast
  then show ?thesis
  proof cases
    case 1
    then have "sy' = Validating" "w' = say (LogLockAcquired (lockKey lk) (lockValue lk)) w1"
      using s free p f
      by (auto simp: step_call_def attempt_step_def isConnectionActive_def getClient_def)
    then show ?thesis using w1 1 by (simp add: used_def)
  next
    case 2
    then have "sy' = Validating" "w' = say (LogLockAcquired (lockKey lk) (lockValue lk)) w1"
      using s free p f
      by (auto simp: step_call_def attempt_step_def)
    then show ?thesis using w1 2 by (simp add: used_def)
  next
    case 3
    then have "sy' = Finished (Inl (FailedToAcquireLock (lockKey lk)))"
      "w' = say (LogLockGaveUp 5 (lockKey lk)) w"
      using s p by (auto simp: step_call_def attempt_step_def)
    then show ?thesis using st h 3 by (simp add: used_def waiting_def)
  next
    case 4
    then show ?thesis using s st h by (auto simp: step_call_def waiting_def used_def)
  qed
qed

lemma valid_iff:
  "isValid (validateBooking d w) =
     (cb_checkInDate d < cb_checkOutDate d \<and> clock w \<le> cb_checkInDate d
      \<and> 0 < cb_numberOfGuests d
      \<and> (case findRoom (cb_roomId d) w of
            None \<Rightarrow> False
          | Some room \<Rightarrow>
              isActive room \<and> cb_numberOfGuests d \<le> maxOccupancy room
              \<and> coll_find (conflict_filter (cb_roomId d) (cb_checkInDate d) (cb_checkOutDate d) None)
                   (bookings w) = []))"
  by (simp add: validateBooking_def push_if_def Let_def not_less not_le split: option.splits)

lemma valid_earlier:
  assumes "isValid (validateBooking d (w0\<lparr>clock := clock w0 + 2000\<rparr>))"
    and "rooms w = rooms w0" and "bookings w = bookings w0" and "clock w \<le> clock w0 + 2000"
  shows "isValid (validateBooking d w)"
  using assms unfolding valid_iff by (simp add: findRoom_def split: option.splits)

lemma valid_facts:
  assumes "isValid (validateBooking d w)"
  shows "cb_checkInDate d < cb_checkOutDate d \<and> findRoom (cb_roomId d) w \<noteq> None"
  using assms unfolding valid_iff by (simp split: option.splits)

lemma taken_after:
  assumes v: "isValid (validateBooking d (w0\<lparr>clock := clock w0 + 2000\<rparr>))"
    and r: "rooms w = rooms w0" and b: "bookings w = bookings w0 @ [x]" and g: "good d x"
  shows "DatesTaken \<in> set (errors (validateBooking d w)) \<and> \<not> isValid (validateBooking d w)"
proof -
  from valid_facts[OF v] have lt: "cb_checkInDate d < cb_checkOutDate d"
    and room: "findRoom (cb_roomId d) w \<noteq> None"
    using r by (auto simp: findRoom_def)
  have "matches (conflict_filter (cb_roomId d) (cb_checkInDate d) (cb_checkOutDate d) None) x"
    using g lt by (simp add: conflict_matches good_def)
  then have ne: "coll_find (conflict_filter (cb_roomId d) (cb_checkInDate d) (cb_checkOutDate d) None)
                (bookings w) \<noteq> []"
    using b by (auto simp: coll_find_def filter_empty_conv)
  obtain room where "findRoom (cb_roomId d) w = Some room" using room by auto
  then have "DatesTaken \<in> set (errors (validateBooking d w))"
    using ne unfolding validateBooking_errors by simp
  moreover have "\<not> isValid (validateBooking d w)"
    using ne unfolding valid_iff by (simp split: option.splits)
  ultimately show ?thesis by simp
qed

lemma validating_turn:
  assumes s: "step_call c Validating w = (sy', w')"
  shows "w' = say (LogCreatingBooking (cb_roomId (c_data c)) (cb_checkInDate (c_data c))
                     (cb_checkOutDate (c_data c))) w
     \<and> sy' = (if isValid (validateBooking (c_data c) w) then Persisting
              else Releasing (Inl (ValidationFailed (errors (validateBooking (c_data c) w)))))"
  using s by (auto simp: step_call_def section_validate_def Let_def split: if_splits)

lemma scan_only_matches: "fst (client_scan p w) = Inr keys \<Longrightarrow> k \<in> set keys \<Longrightarrow> glob p k"
  by (auto simp: client_scan_def Let_def split: if_splits)

lemma del_other_keys:
  "K \<notin> set keys \<Longrightarrow> map_of (kv (snd (client_del keys w))) K = map_of (kv w) K"
  by (simp add: client_del_def Let_def map_of_filter_keys consume_fault_def)

lemma redis_invalidate_other_keys:
  assumes "\<not> glob (''room:availability:'' @ room @ '':*'') K"
  shows "map_of (kv (snd (redis_invalidateRoomCache room w))) K = map_of (kv w) K"
proof -
  define p where "p = ''room:availability:'' @ room @ '':*''"
  have nk: "K \<notin> set keys" if "fst (client_scan p w) = Inr keys" for keys
    using scan_only_matches[OF that, of K] assms by (auto simp: p_def)
  have "map_of (kv (snd (redis_invalidate_try room w))) K = map_of (kv w) K"
    unfolding redis_invalidate_try_def p_def[symmetric]
    using nk
    by (simp add: case_prod_beta snd_client_scan del_other_keys world_updates split: sum.splits)
  then show ?thesis
    by (simp add: redis_invalidateRoomCache_def case_prod_beta world_updates split: sum.splits)
qed

lemma lock_key_not_cached:
  "\<not> glob (''room:availability:'' @ room @ '':*'') (''lock:'' @ rest)"
  by simp

lemma steady_redis_invalidate:
  assumes "steady w0 w"
  shows "steady w0 (snd (redis_invalidateRoomCache room w))"
proof -
  have a: "isConnectionActive w" "faults w = []"
    using assms by (simp_all add: steady_def isConnectionActive_def)
  have "rooms (snd (redis_invalidateRoomCache room w)) = rooms w
      \<and> isConnected (snd (redis_invalidateRoomCache room w)) = isConnected w
      \<and> isReady (snd (redis_invalidateRoomCache room w)) = isReady w"
    by (simp add: redis_invalidateRoomCache_def redis_invalidate_try_def case_prod_beta
        snd_client_scan client_del_def Let_def world_updates split: sum.splits)
  then show ?thesis
    using assms redis_invalidate_live(2,3)[OF a, of room] by (simp add: steady_def)
qed

text \<open>The holder of the lock persists its booking.\<close>

lemma persisting_turn:
  assumes lk: "booking_lock lk" and st: "steady w0 w"
    and room: "findRoom (cb_roomId d) w \<noteq> None"
    and h: "held_by (lockKey lk) v w0 w"
    and s: "step_call \<lparr>c_user = u, c_data = d, c_lock = lk\<rparr> Persisting w = (sy', w')"
  shows "\<exists>b. sy' = Releasing (Inr b) \<and> good d b \<and> bookings w' = bookings w @ [b]
     \<and> held_by (lockKey lk) v w0 w' \<and> steady w0 w' \<and> clock w' = clock w"
proof -
  obtain r where r: "findRoom (cb_roomId d) w = Some r" using room by auto
  obtain rest where key: "lockKey lk = ''lock:'' @ rest" using lk by (auto simp: booking_lock_def)
  define doc where "doc = \<lparr> bookingId = [], userId = u, roomId = cb_roomId d,
             checkInDate = cb_checkInDate d, checkOutDate = cb_checkOutDate d,
             numberOfGuests = cb_numberOfGuests d,
             totalAmount = basePrice r
                * rat_of_int (totalNights (cb_checkInDate d) (cb_checkOutDate d)),
             status = PENDING, paymentStatus = PAYMENT_PENDING,
             specialRequests = (case cb_specialRequests d of None \<Rightarrow> None
                                | Some text \<Rightarrow> if text = [] then None else Some text),
             createdAt = clock w, updatedAt = clock w \<rparr>"
  define b where "b = doc\<lparr>bookingId := genId w (idCount w)\<rparr>"
  define w1 where "w1 = w\<lparr>bookings := bookings w @ [b], idCount := Suc (idCount w)\<rparr>"
  define w2 where "w2 = snd (redis_invalidateRoomCache (cb_roomId d) w1)"
  have st1: "steady w0 w1" using st by (simp add: steady_def w1_def)
  have act1: "isConnectionActive w1" using st1 by (simp add: steady_def isConnectionActive_def)
  have inv: "invalidate_if_active redis_invalidateRoomCache (cb_roomId d) w1 = w2"
    using act1
    by (simp add: invalidate_if_active_def w2_def redis_invalidateRoomCache_def case_prod_beta
        split: sum.splits)
  have whole: "section_persist u d w = (Inr b, say (LogBookingCreated (genId w (idCount w))) w2)"
    using r inv[unfolded w1_def b_def doc_def]
    by (simp add: section_persist_def insertOne_def Let_def b_def doc_def)
  have st2: "steady w0 w2" unfolding w2_def by (rule steady_redis_invalidate[OF st1])
  have a1: "faults w1 = []" using st1 by (simp add: steady_def)
  have ck: "clock w2 = clock w"
    unfolding w2_def using redis_invalidate_live(3)[OF act1 a1, of "cb_roomId d"]
    by (simp add: w1_def)
  have bk: "bookings w2 = bookings w @ [b]"
    by (simp add: w2_def w1_def)
  have "map_of (kv w2) (lockKey lk) = map_of (kv w1) (lockKey lk)"
    unfolding w2_def key by (rule redis_invalidate_other_keys[OF lock_key_not_cached])
  then have h2: "held_by (lockKey lk) v w0 w2"
    using h by (simp add: held_by_def w1_def)
  have g: "good d b" by (simp add: good_def b_def doc_def)
  from s whole have "sy' = Releasing (Inr b)" "w' = say (LogBookingCreated (genId w (idCount w))) w2"
    by (simp_all add: step_call_def)
  then show ?thesis using g bk h2 st2 ck by simp
qed

lemma steady_release:
  "steady w0 w \<Longrightarrow> steady w0 (snd (release lk w))"
  by (simp add: steady_def release_def release_try_def client_eval_release_def release_script_def
      case_prod_beta Let_def world_updates getClient_def split: sum.splits)

text \<open>The holder of the lock releases it.\<close>

lemma releasing_turn:
  assumes st: "steady w0 w" and h: "held_by (lockKey lk) (lockValue lk) w0 w"
    and c: "clock w < clock w0 + 60000"
    and s: "step_call \<lparr>c_user = u, c_data = d, c_lock = lk\<rparr> (Releasing out) w = (sy', w')"
  shows "sy' = Finished out \<and> live w' (lockKey lk) = None \<and> bookings w' = bookings w
     \<and> steady w0 w' \<and> clock w' = clock w"
proof -
  have l: "live w (lockKey lk) = Some (Text (lockValue lk))" by (rule held_live[OF h c])
  have a: "isConnectionActive w" "\<not> command_fails w"
    using st by (simp_all add: steady_def isConnectionActive_def command_fails_def)
  have r: "fst (release lk w) = Inr True" "live (snd (release lk w)) (lockKey lk) = None"
    using release_effect[of lk w] l a by simp_all
  from s r(1) have "sy' = Finished out" "w' = snd (release lk w)"
    by (auto simp: step_call_def split: prod.splits sum.splits)
  then show ?thesis
    using r(2) release_frame[of lk w] steady_release[OF st, of lk] by simp
qed

lemma setting_sym: "setting ca cb w0 \<Longrightarrow> setting cb ca w0"
  by (simp add: setting_def)

lemma used_le: "used st \<le> 5"
  by (simp add: used_def split: stage.splits)

lemma leader_turn:
  assumes se: "setting cx cy w0" and st: "steady w0 w" and ck: "clock w \<le> clock w0 + 2000"
    and l: "led cx cy w0 sx sy w" and s: "step_call cx sx w = (sx', w')"
  shows "led cx cy w0 sx' sy w' \<and> steady w0 w' \<and> clock w' = clock w \<and> used sx \<le> used sx'"
proof -
  let ?K = "lockKey (c_lock cx)"
  have lkx: "booking_lock (c_lock cx)" using se by (simp add: setting_def)
  have vx: "isValid (validateBooking (c_data cx) (w0\<lparr>clock := clock w0 + 2000\<rparr>))"
    using se by (simp add: setting_def)
  have rw: "rooms w = rooms w0" using st by (simp add: steady_def)
  have s': "step_call \<lparr>c_user = c_user cx, c_data = c_data cx, c_lock = c_lock cx\<rparr> sx w = (sx', w')"
    using s by (cases cx) simp
  from l consider
      (val) "sx = Validating" "bookings w = bookings w0"
        "held_by ?K (lockValue (c_lock cx)) w0 w" "waiting ?K sy"
    | (per) "sx = Persisting" "bookings w = bookings w0"
        "held_by ?K (lockValue (c_lock cx)) w0 w" "waiting ?K sy"
    | (rel) b where "sx = Releasing (Inr b)" "good (c_data cx) b" "bookings w = bookings w0 @ [b]"
        "held_by ?K (lockValue (c_lock cx)) w0 w" "waiting ?K sy"
    | (fin) b where "sx = Finished (Inr b)"
    unfolding led_def by blast
  then show ?thesis
  proof cases
    case val
    have "isValid (validateBooking (c_data cx) w)"
      by (rule valid_earlier[OF vx rw val(2) ck])
    with validating_turn[of cx w sx' w'] s val(1)
    have "sx' = Persisting" "w' = say (LogCreatingBooking (cb_roomId (c_data cx))
        (cb_checkInDate (c_data cx)) (cb_checkOutDate (c_data cx))) w"
      by simp_all
    then show ?thesis using val st by (simp add: led_def used_def)
  next
    case per
    have room: "findRoom (cb_roomId (c_data cx)) w \<noteq> None"
      using valid_facts[OF vx] rw by (simp add: findRoom_def)
    from persisting_turn[OF lkx st room per(3) s'[unfolded per(1)]]
    obtain b where "sx' = Releasing (Inr b)" "good (c_data cx) b" "bookings w' = bookings w @ [b]"
      "held_by ?K (lockValue (c_lock cx)) w0 w'" "steady w0 w'" "clock w' = clock w"
      by blast
    then show ?thesis using per by (auto simp: led_def used_def)
  next
    case rel
    from releasing_turn[OF st rel(4) _ s'[unfolded rel(1)]] ck
    have "sx' = Finished (Inr b)" "live w' ?K = None" "bookings w' = bookings w"
      "steady w0 w'" "clock w' = clock w"
      by simp_all
    then show ?thesis using rel by (auto simp: led_def used_def)
  next
    case fin
    then have "sx' = sx" "w' = w" using s by (simp_all add: step_call_def)
    then show ?thesis using l st by simp
  qed
qed

lemma follower_turn:
  assumes se: "setting cx cy w0" and st: "steady w0 w" and ck: "clock w \<le> clock w0 + 2000"
    and l: "led cx cy w0 sx sy w" and s: "step_call cy sy w = (sy', w')"
  shows "led cx cy w0 sx sy' w' \<and> steady w0 w' \<and> clock w \<le> clock w'
     \<and> clock w' \<le> clock w + 200 * (used sy' - used sy)"
proof -
  let ?K = "lockKey (c_lock cx)"
  have lky: "booking_lock (c_lock cy)" and K: "lockKey (c_lock cy) = ?K"
    and same: "cb_roomId (c_data cx) = cb_roomId (c_data cy)"
      "cb_checkInDate (c_data cx) = cb_checkInDate (c_data cy)"
      "cb_checkOutDate (c_data cx) = cb_checkOutDate (c_data cy)"
    and vy: "isValid (validateBooking (c_data cy) (w0\<lparr>clock := clock w0 + 2000\<rparr>))"
    using se by (simp_all add: setting_def)
  have rw: "rooms w = rooms w0" using st by (simp add: steady_def)
  have ck6: "clock w < clock w0 + 60000" using ck by simp
  have s': "step_call \<lparr>c_user = c_user cy, c_data = c_data cy, c_lock = c_lock cy\<rparr> sy w = (sy', w')"
    using s by (cases cy) simp
  from l consider
      (held) "held_by ?K (lockValue (c_lock cx)) w0 w" "waiting ?K sy"
        "(sx = Validating \<or> sx = Persisting) \<and> bookings w = bookings w0
         \<or> (\<exists>b. sx = Releasing (Inr b) \<and> good (c_data cx) b \<and> bookings w = bookings w0 @ [b])"
    | (free) b where "sx = Finished (Inr b)" "good (c_data cx) b" "bookings w = bookings w0 @ [b]"
        "live w ?K = None" "waiting ?K sy"
    | (val) b where "sx = Finished (Inr b)" "good (c_data cx) b" "bookings w = bookings w0 @ [b]"
        "held_by ?K (lockValue (c_lock cy)) w0 w" "sy = Validating"
    | (rel) b out where "sx = Finished (Inr b)" "good (c_data cx) b" "bookings w = bookings w0 @ [b]"
        "held_by ?K (lockValue (c_lock cy)) w0 w" "sy = Releasing out" "conflicted out"
    | (fin) b out where "sx = Finished (Inr b)" "good (c_data cx) b" "bookings w = bookings w0 @ [b]"
        "live w ?K = None" "sy = Finished out" "conflicted out"
    unfolding led_def by blast
  then show ?thesis
  proof cases
    case held
    have lv: "live w (lockKey (c_lock cy)) = Some (Text (lockValue (c_lock cx)))"
      unfolding K by (rule held_live[OF held(1) ck6])
    from waiting_turn_held[OF lky st _ lv s'] held(2) K
    have r: "waiting ?K sy'" "steady w0 w'" "bookings w' = bookings w" "kv w' = kv w"
      "clock w \<le> clock w'" "clock w' \<le> clock w + 200 * (used sy' - used sy)"
      by simp_all
    have "held_by ?K (lockValue (c_lock cx)) w0 w'"
      using held(1) r(4) by (simp add: held_by_def)
    then show ?thesis using held(3) r unfolding led_def by auto
  next
    case free
    from waiting_turn_free[OF lky st _ _ s'] free(4,5) K
    have r: "steady w0 w'" "bookings w' = bookings w" "clock w' = clock w" "used sy \<le> used sy'"
      "(sy' = Validating \<and> held_by ?K (lockValue (c_lock cy)) w0 w')
         \<or> (waiting ?K sy' \<and> live w' ?K = None)"
      by simp_all
    then show ?thesis using free(1,2,3) unfolding led_def by auto
  next
    case val
    have g: "good (c_data cy) b" using val(2) same by (simp add: good_def)
    from taken_after[OF vy rw val(3) g]
    have t: "DatesTaken \<in> set (errors (validateBooking (c_data cy) w))"
      "\<not> isValid (validateBooking (c_data cy) w)"
      by simp_all
    with validating_turn[of cy w sy' w'] s val(5)
    have r: "sy' = Releasing (Inl (ValidationFailed (errors (validateBooking (c_data cy) w))))"
      "w' = say (LogCreatingBooking (cb_roomId (c_data cy))
        (cb_checkInDate (c_data cy)) (cb_checkOutDate (c_data cy))) w"
      by simp_all
    have "conflicted (Inl (ValidationFailed (errors (validateBooking (c_data cy) w))))"
      using t(1) by (simp add: conflicted_def)
    then show ?thesis using r val st unfolding led_def by (auto simp: used_def)
  next
    case rel
    from releasing_turn[OF st _ ck6 s'[unfolded rel(5)]] rel(4) K
    have "sy' = Finished out" "live w' ?K = None" "bookings w' = bookings w"
      "steady w0 w'" "clock w' = clock w"
      by simp_all
    then show ?thesis using rel unfolding led_def by (auto simp: used_def)
  next
    case fin
    then have "sy' = sy" "w' = w" using s by (simp_all add: step_call_def)
    then show ?thesis using l st by simp
  qed
qed

lemma turn:
  assumes se: "setting cm co w0" and st: "steady w0 w"
    and ck: "clock w \<le> clock w0 + 200 * (used sm + used so)"
    and l: "(sm = Start \<and> so = Start \<and> bookings w = bookings w0
               \<and> live w (lockKey (c_lock cm)) = None)
            \<or> led cm co w0 sm so w \<or> led co cm w0 so sm w"
    and s: "step_call cm sm w = (sm', w')"
  shows "steady w0 w' \<and> clock w' \<le> clock w0 + 200 * (used sm' + used so)
     \<and> (led cm co w0 sm' so w' \<or> led co cm w0 so sm' w')"
proof -
  have ck2: "clock w \<le> clock w0 + 2000"
    using ck used_le[of sm] used_le[of so] by simp
  from l consider
      (start) "sm = Start" "so = Start" "bookings w = bookings w0"
        "live w (lockKey (c_lock cm)) = None"
    | (leader) "led cm co w0 sm so w" | (follower) "led co cm w0 so sm w"
    by auto
  then show ?thesis
  proof cases
    case start
    have lk: "booking_lock (c_lock cm)" using se by (simp add: setting_def)
    have s': "step_call \<lparr>c_user = c_user cm, c_data = c_data cm, c_lock = c_lock cm\<rparr> sm w = (sm', w')"
      using s by (cases cm) simp
    have ws: "waiting (lockKey (c_lock cm)) sm" using start(1) by (simp add: waiting_def)
    from waiting_turn_free[OF lk st ws start(4) s'] start(1)
    have r: "steady w0 w'" "bookings w' = bookings w" "clock w' = clock w" "sm' = Validating"
      "held_by (lockKey (c_lock cm)) (lockValue (c_lock cm)) w0 w'"
      by (auto simp: waiting_def)
    have "led cm co w0 sm' so w'"
      using r start by (simp add: led_def waiting_def)
    moreover have "clock w' \<le> clock w0 + 200 * (used sm' + used so)"
      using r(3,4) ck start by (simp add: used_def)
    ultimately show ?thesis using r(1) by simp
  next
    case leader
    from leader_turn[OF se st ck2 leader s]
    have "led cm co w0 sm' so w'" "steady w0 w'" "clock w' = clock w" "used sm \<le> used sm'"
      by simp_all
    then show ?thesis using ck by simp
  next
    case follower
    from follower_turn[OF setting_sym[OF se] st ck2 follower s]
    have "led co cm w0 so sm' w'" "steady w0 w'"
      "clock w' \<le> clock w + 200 * (used sm' - used sm)"
      by simp_all
    then show ?thesis using ck by simp
  qed
qed

lemma coordinated_step:
  assumes se: "setting ca cb w0" and c: "coordinated ca cb w0 cfg"
  shows "coordinated ca cb w0 (step ca cb turnA cfg)"
proof (cases turnA)
  case True
  obtain st w where s: "step_call ca (stageA cfg) (shared cfg) = (st, w)"
    by (cases "step_call ca (stageA cfg) (shared cfg)")
  have "steady w0 w \<and> clock w \<le> clock w0 + 200 * (used st + used (stageB cfg))
     \<and> (led ca cb w0 st (stageB cfg) w \<or> led cb ca w0 (stageB cfg) st w)"
    using c by (intro turn[OF se _ _ _ s]) (auto simp: coordinated_def)
  then show ?thesis using True s by (simp add: coordinated_def step_def)
next
  case False
  have K: "lockKey (c_lock cb) = lockKey (c_lock ca)" using se by (simp add: setting_def)
  obtain st w where s: "step_call cb (stageB cfg) (shared cfg) = (st, w)"
    by (cases "step_call cb (stageB cfg) (shared cfg)")
  have "steady w0 w \<and> clock w \<le> clock w0 + 200 * (used st + used (stageA cfg))
     \<and> (led cb ca w0 st (stageA cfg) w \<or> led ca cb w0 (stageA cfg) st w)"
    using c K by (intro turn[OF setting_sym[OF se] _ _ _ s]) (auto simp: coordinated_def)
  then show ?thesis using False s by (auto simp: coordinated_def step_def add.commute)
qed

lemma coordinated_run:
  assumes "setting ca cb w0" and "coordinated ca cb w0 cfg"
  shows "coordinated ca cb w0 (run ca cb schedule cfg)"
  using assms(2)
  by (induction schedule arbitrary: cfg) (simp_all add: coordinated_step[OF assms(1)])

lemma rank_turn:
  assumes "maxRetries (c_lock c) = 5" and "step_call c st w = (st', w')"
  shows "rank st' \<le> rank st - 1"
  using assms
  by (auto simp: step_call_def attempt_step_def rank_def Let_def
      split: stage.splits sum.splits prod.splits if_splits)

lemma rank_zero: "rank st = 0 \<Longrightarrow> \<exists>out. st = Finished out"
  by (cases st) (simp_all add: rank_def split: if_splits)

lemma rank_runA:
  assumes "maxRetries (c_lock ca) = 5"
  shows "rank (stageA (run ca cb schedule cfg)) \<le> rank (stageA cfg) - count_list schedule True"
proof (induction schedule arbitrary: cfg)
  case Nil
  show ?case by simp
next
  case (Cons t schedule)
  show ?case
  proof (cases t)
    case True
    obtain st w where s: "step_call ca (stageA cfg) (shared cfg) = (st, w)"
      by (cases "step_call ca (stageA cfg) (shared cfg)")
    have "rank (stageA (step ca cb t cfg)) \<le> rank (stageA cfg) - 1"
      using rank_turn[OF assms s] True s by (simp add: step_def)
    with Cons[of "step ca cb t cfg"] True show ?thesis by simp
  next
    case False
    have "stageA (step ca cb t cfg) = stageA cfg"
      using False by (simp add: step_def split: prod.splits)
    with Cons[of "step ca cb t cfg"] False show ?thesis by simp
  qed
qed

lemma rank_runB:
  assumes "maxRetries (c_lock cb) = 5"
  shows "rank (stageB (run ca cb schedule cfg)) \<le> rank (stageB cfg) - count_list schedule False"
proof (induction schedule arbitrary: cfg)
  case Nil
  show ?case by simp
next
  case (Cons t schedule)
  show ?case
  proof (cases t)
    case False
    obtain st w where s: "step_call cb (stageB cfg) (shared cfg) = (st, w)"
      by (cases "step_call cb (stageB cfg) (shared cfg)")
    have "rank (stageB (step ca cb t cfg)) \<le> rank (stageB cfg) - 1"
      using rank_turn[OF assms s] False s by (simp add: step_def)
    with Cons[of "step ca cb t cfg"] False show ?thesis by simp
  next
    case True
    have "stageB (step ca cb t cfg) = stageB cfg"
      using True by (simp add: step_def split: prod.splits)
    with Cons[of "step ca cb t cfg"] True show ?thesis by simp
  qed
qed

text \<open>A turn of a call does not change what the call will return, run to its end alone.\<close>

lemma attempt_outcome:
  assumes "attempt_step (c_lock c) k w = (st', w')"
  shows "outcome c st' w' = after_acquire c (acquire_loop (c_lock c) k w)"
  using assms
  apply (subst acquire_loop.simps)
  apply (auto simp: attempt_step_def outcome_def after_acquire_def Let_def
      split: sum.splits prod.splits if_splits)
  done

lemma outcome_turn:
  assumes "step_call c st w = (st', w')"
  shows "outcome c st' w' = outcome c st w"
proof (cases st)
  case Start
  show ?thesis
  proof (cases "isConnectionActive w")
    case True
    then have "attempt_step (c_lock c) 0 w = (st', w')"
      using assms Start by (simp add: step_call_def getClient_def isConnectionActive_def)
    from attempt_outcome[OF this] True Start show ?thesis
      by (simp add: outcome_def withLock_def acquire_def getClient_def isConnectionActive_def
          after_acquire_def finish_def split: prod.splits sum.splits)
  next
    case False
    then show ?thesis using assms Start
      by (auto simp: step_call_def outcome_def withLock_def acquire_def)
  qed
next
  case (Attempt k)
  then have "attempt_step (c_lock c) k w = (st', w')" using assms by (simp add: step_call_def)
  from attempt_outcome[OF this] Attempt show ?thesis by (simp add: outcome_def)
next
  case Validating
  then show ?thesis using assms
    by (auto simp: step_call_def outcome_def createBooking_section_split split: sum.splits prod.splits)
next
  case Persisting
  then show ?thesis using assms
    by (auto simp: step_call_def outcome_def split: prod.splits)
next
  case (Releasing out)
  then show ?thesis using assms
    by (auto simp: step_call_def outcome_def finish_def split: sum.splits prod.splits)
next
  case (Finished out)
  then show ?thesis using assms by (auto simp: step_call_def outcome_def)
qed

lemma outcome_alone:
  "outcome ca (stageA (run ca cb (replicate n True) cfg)) (shared (run ca cb (replicate n True) cfg))
     = outcome ca (stageA cfg) (shared cfg)
   \<and> stageB (run ca cb (replicate n True) cfg) = stageB cfg"
proof (induction n arbitrary: cfg)
  case 0
  show ?case by simp
next
  case (Suc n)
  obtain st w where s: "step_call ca (stageA cfg) (shared cfg) = (st, w)"
    by (cases "step_call ca (stageA cfg) (shared cfg)")
  have "outcome ca (stageA (step ca cb True cfg)) (shared (step ca cb True cfg))
          = outcome ca (stageA cfg) (shared cfg)"
       "stageB (step ca cb True cfg) = stageB cfg"
    using outcome_turn[OF s] s by (simp_all add: step_def)
  with Suc[of "step ca cb True cfg"] show ?case by simp
qed

text \<open>
  Run alone, the turns of a call add up to \<open>createBooking\<close>: nine turns end it, with the
  result and the world of \<open>createBooking\<close>.
\<close>

lemma createBooking_alone:
  assumes "9 \<le> n"
  shows "run (new_call toISOString ownerValue user bookingData) cb (replicate n True)
           \<lparr>stageA = Start, stageB = sb, shared = w\<rparr>
         = \<lparr>stageA = Finished (fst (createBooking toISOString ownerValue user bookingData w)),
            stageB = sb,
            shared = snd (createBooking toISOString ownerValue user bookingData w)\<rparr>"
proof -
  let ?c = "new_call toISOString ownerValue user bookingData"
  let ?cfg = "run ?c cb (replicate n True) \<lparr>stageA = Start, stageB = sb, shared = w\<rparr>"
  have m: "maxRetries (c_lock ?c) = 5"
    by (simp add: new_call_def createBookingLock_def new_RedisLock_def or_default_def)
  have "rank (stageA ?cfg) \<le> 9 - count_list (replicate n True) True"
    using rank_runA[OF m, of cb "replicate n True" "\<lparr>stageA = Start, stageB = sb, shared = w\<rparr>"]
    by (simp add: rank_def)
  moreover have "count_list (replicate n True) True = n" by (induction n) simp_all
  ultimately have "rank (stageA ?cfg) = 0" using assms by simp
  then obtain out where f: "stageA ?cfg = Finished out" using rank_zero by blast
  have o: "outcome ?c (stageA ?cfg) (shared ?cfg) = outcome ?c Start w" "stageB ?cfg = sb"
    using outcome_alone[of ?c cb n "\<lparr>stageA = Start, stageB = sb, shared = w\<rparr>"] by simp_all
  have "outcome ?c Start w = createBooking toISOString ownerValue user bookingData w"
    by (simp add: outcome_def createBooking_def new_call_def)
  with o(1) f have "(out, shared ?cfg) = createBooking toISOString ownerValue user bookingData w"
    by (simp add: outcome_def)
  then have "out = fst (createBooking toISOString ownerValue user bookingData w)"
    "shared ?cfg = snd (createBooking toISOString ownerValue user bookingData w)"
    by (metis fst_conv, metis snd_conv)
  with f o(2) show ?thesis by (cases ?cfg) simp
qed

lemma new_call_lock:
  "booking_lock (c_lock (new_call toISOString ownerValue user bookingData))"
  by (simp add: new_call_def createBookingLock_def new_RedisLock_def or_default_def
      booking_lock_def)

lemma new_call_fields [simp]:
  "c_data (new_call toISOString ownerValue user bookingData) = bookingData"
  "c_user (new_call toISOString ownerValue user bookingData) = user"
  by (simp_all add: new_call_def)

lemma new_call_key:
  assumes "cb_roomId dataA = cb_roomId dataB" and "cb_checkInDate dataA = cb_checkInDate dataB"
    and "cb_checkOutDate dataA = cb_checkOutDate dataB"
  shows "lockKey (c_lock (new_call toISOString ownerA userA dataA))
       = lockKey (c_lock (new_call toISOString ownerB userB dataB))"
  using assms by (simp add: new_call_def createBookingLock_def new_RedisLock_def)

lemma finished_pair:
  assumes se: "setting ca cb w0" and c: "coordinated ca cb w0 cfg"
    and a: "stageA cfg = Finished ra" and b: "stageB cfg = Finished rb"
  shows "\<exists>x. good (c_data ca) x \<and> bookings (shared cfg) = bookings w0 @ [x]
      \<and> ((ra = Inr x \<and> (rb = Inl (FailedToAcquireLock (lockKey (c_lock ca))) \<or> conflicted rb))
         \<or> (rb = Inr x \<and> (ra = Inl (FailedToAcquireLock (lockKey (c_lock ca))) \<or> conflicted ra)))"
proof -
  have K: "lockKey (c_lock cb) = lockKey (c_lock ca)" using se by (simp add: setting_def)
  have g: "good (c_data cb) x = good (c_data ca) x" for x
    using se by (simp add: setting_def good_def)
  from c a b have "led ca cb w0 (Finished ra) (Finished rb) (shared cfg)
      \<or> led cb ca w0 (Finished rb) (Finished ra) (shared cfg)"
    by (auto simp: coordinated_def)
  then show ?thesis
    using K g by (auto simp: led_def waiting_def)
qed

text \<open>
  The room is taken from 1 to 5 February by a pending booking, and two calls ask for it
  from 3 to 6 February. The first takes the lock, the second finds the key taken and
  sleeps; the first fails its validation and releases, then the second takes the lock and
  fails its validation too. Both report the conflict, and no call succeeds.
\<close>

theorem concurrent_calls_may_both_fail:
  "stageA (race (new_call example_iso ''1-ownerA'' ''65c000000000000000000001''
                   (candidate (feb 3) (feb 6) 2))
                (new_call example_iso ''2-ownerB'' ''65c000000000000000000002''
                   (candidate (feb 3) (feb 6) 2))
                [True, False, True, True, False, False, False] world_feb)
     = Finished (Inl (ValidationFailed [DatesTaken]))
   \<and> stageB (race (new_call example_iso ''1-ownerA'' ''65c000000000000000000001''
                   (candidate (feb 3) (feb 6) 2))
                (new_call example_iso ''2-ownerB'' ''65c000000000000000000002''
                   (candidate (feb 3) (feb 6) 2))
                [True, False, True, True, False, False, False] world_feb)
     = Finished (Inl (ValidationFailed [DatesTaken]))"
  by (simp add: race_eval)

text \<open>
  C1, amended. Two calls of \<open>createBooking\<close> for the same room and the same check-in and
  check-out, their turns interleaved by any schedule that gives each call nine turns or
  more. The store is connected and rejects no command, the key of the lock is free at the
  start, and each request passes \<open>validateBooking\<close> against the bookings of the start,
  also two seconds later (the retries of both calls sleep for two seconds at most, and
  time passes in these sleeps only, so the lock of a minute does not run out). Then both
  calls return, exactly one of them returns a booking, pending and for the room and the
  dates asked, that booking is the one document added to the collection, and the other
  call fails with the lock failure or with the validation error that reports the conflict.
\<close>

theorem concurrent_createBooking:
  assumes conn: "isConnectionActive w" and nofault: "faults w = []"
    and room: "cb_roomId dataA = cb_roomId dataB"
    and checkIn: "cb_checkInDate dataA = cb_checkInDate dataB"
    and checkOut: "cb_checkOutDate dataA = cb_checkOutDate dataB"
    and free: "live w (lockKey (c_lock (new_call toISOString ownerA userA dataA))) = None"
    and validA: "isValid (validateBooking dataA (w\<lparr>clock := clock w + 2000\<rparr>))"
    and validB: "isValid (validateBooking dataB (w\<lparr>clock := clock w + 2000\<rparr>))"
    and turnsA: "9 \<le> count_list schedule True"
    and turnsB: "9 \<le> count_list schedule False"
    and cfg: "cfg = race (new_call toISOString ownerA userA dataA)
                      (new_call toISOString ownerB userB dataB) schedule w"
  shows "\<exists>ra rb b. stageA cfg = Finished ra \<and> stageB cfg = Finished rb
      \<and> good dataA b \<and> bookings (shared cfg) = bookings w @ [b]
      \<and> ((ra = Inr b
            \<and> (rb = Inl (FailedToAcquireLock
                          (lockKey (c_lock (new_call toISOString ownerA userA dataA))))
                \<or> conflicted rb))
         \<or> (rb = Inr b
            \<and> (ra = Inl (FailedToAcquireLock
                          (lockKey (c_lock (new_call toISOString ownerA userA dataA))))
                \<or> conflicted ra)))"
proof -
  define ca where "ca = new_call toISOString ownerA userA dataA"
  define cb where "cb = new_call toISOString ownerB userB dataB"
  define start where "start = \<lparr>stageA = Start, stageB = Start, shared = w\<rparr>"
  have la: "booking_lock (c_lock ca)" and lb: "booking_lock (c_lock cb)"
    by (simp_all add: ca_def cb_def new_call_lock)
  have K: "lockKey (c_lock ca) = lockKey (c_lock cb)"
    unfolding ca_def cb_def by (rule new_call_key[OF room checkIn checkOut])
  have se: "setting ca cb w"
    using la lb K room checkIn checkOut validA validB
    by (simp add: setting_def ca_def cb_def)
  have "coordinated ca cb w start"
    using conn nofault free
    by (simp add: coordinated_def start_def steady_def isConnectionActive_def used_def ca_def)
  then have c: "coordinated ca cb w cfg"
    unfolding cfg race_def ca_def[symmetric] cb_def[symmetric] start_def[symmetric]
    by (rule coordinated_run[OF se])
  have "rank (stageA cfg) \<le> rank (stageA start) - count_list schedule True"
    unfolding cfg race_def ca_def[symmetric] cb_def[symmetric] start_def[symmetric]
    using la by (intro rank_runA) (simp add: booking_lock_def)
  then have "rank (stageA cfg) = 0" using turnsA by (simp add: start_def rank_def)
  then obtain ra where a: "stageA cfg = Finished ra" using rank_zero by blast
  have "rank (stageB cfg) \<le> rank (stageB start) - count_list schedule False"
    unfolding cfg race_def ca_def[symmetric] cb_def[symmetric] start_def[symmetric]
    using lb by (intro rank_runB) (simp add: booking_lock_def)
  then have "rank (stageB cfg) = 0" using turnsB by (simp add: start_def rank_def)
  then obtain rb where b: "stageB cfg = Finished rb" using rank_zero by blast
  from finished_pair[OF se c a b] a b show ?thesis
    by (auto simp: ca_def)
qed

text \<open>
  Two requests for the free room from 1 to 4 March. The first call takes the lock,
  validates and inserts; the second finds the key taken once, takes the lock after the
  release and meets the conflict.
\<close>

theorem concurrent_createBooking_witness:
  "stageA (race (new_call example_iso ''1-ownerA'' ''65c000000000000000000001''
                   (candidate (march 1) (march 4) 2))
                (new_call example_iso ''2-ownerB'' ''65c000000000000000000002''
                   (candidate (march 1) (march 4) 1))
                [True, True, True, False, True, False, False, False, True, False, True, False,
                 True, False, True, False, True, False] world_march)
     = Finished (Inr booked_march)
   \<and> stageB (race (new_call example_iso ''1-ownerA'' ''65c000000000000000000001''
                   (candidate (march 1) (march 4) 2))
                (new_call example_iso ''2-ownerB'' ''65c000000000000000000002''
                   (candidate (march 1) (march 4) 1))
                [True, True, True, False, True, False, False, False, True, False, True, False,
                 True, False, True, False, True, False] world_march)
     = Finished (Inl (ValidationFailed [DatesTaken]))"
  using concurrent_createBooking[of world_march "candidate (march 1) (march 4) 2"
      "candidate (march 1) (march 4) 1" example_iso "''1-ownerA''"
      "''65c000000000000000000001''"
      "[True, True, True, False, True, False, False, False, True, False, True, False,
                 True, False, True, False, True, False]"
      _ "''2-ownerB''" "''65c000000000000000000002''"]
  by (simp add: race_eval)

end
